theory Spec2Isabelle
  imports Complex_Main "HOL-Library.Sublist" "HOL-Library.Char_ord" "HOL-Library.List_Lexorder"
begin

section \<open>The document tree\<close>

text \<open>
  The code works on an lxml tree. A node of the tree is an HTML element (tag, ordered
  attributes, leading text, children, tail text) or some other node (a comment, a
  processing instruction), of which only the tail text matters here. Python strings are
  modelled as \<open>string\<close>, a character being a code point below 256.
\<close>

type_synonym attrs = "(string \<times> string) list"

datatype node =
    Elem (ntag: string) (nattrib: attrs) (ntext: string) (nkids: "node list") (ntail: string)
  | Other (ntail: string)

text \<open>
  An element object is a position in the tree: the fields of the element itself and,
  for every ancestor from the parent up to the root, a frame holding the ancestor's own
  fields, the nodes before the position (nearest first) and the nodes after it. Two
  element values are equal exactly when they are the same position of the same tree,
  which is Python's object identity within one document. Whether the class of the object
  is \<open>Element\<close> or still lxml's plain \<open>HtmlElement\<close> is not part of the position; it is
  kept in a store (see \<open>parent\<close> below).
\<close>

datatype frame =
  Frame (ftag: string) (fattrib: attrs) (ftext: string) (ftail: string)
        (fleft: "node list") (fright: "node list")

datatype element =
  Element (tag: string) (attrib: attrs) (etext: string) (kids: "node list") (tail: string)
          (ctx: "frame list")

text \<open>What an lxml iterator yields: an \<open>HtmlElement\<close>, or a node of another class.\<close>

datatype lxml_node = HtmlElement element | HtmlComment

datatype pyval = PyInt int | PyStr string

datatype error = KeyError | ValueError | TypeError | AttributeError | ParserError

definition node_of :: "element \<Rightarrow> node" where
  "node_of e = Elem (tag e) (attrib e) (etext e) (kids e) (tail e)"

definition frame_of :: "element \<Rightarrow> node list \<Rightarrow> node list \<Rightarrow> frame" where
  "frame_of e = Frame (tag e) (attrib e) (etext e) (tail e)"

text \<open>\<open>element.getparent()\<close>\<close>

definition getparent :: "element \<Rightarrow> element option" where
  "getparent e =
     (case ctx e of
        [] \<Rightarrow> None
      | Frame g a x t l r # up \<Rightarrow> Some (Element g a x (rev l @ node_of e # r) t up))"

text \<open>The chain of proper ancestors of an element, the parent first.\<close>

fun climb :: "node \<Rightarrow> frame list \<Rightarrow> element list" where
  "climb n [] = []"
| "climb n (Frame g a x t l r # up) =
     Element g a x (rev l @ n # r) t up # climb (Elem g a x (rev l @ n # r) t) up"

definition ancestors :: "element \<Rightarrow> element list" where
  "ancestors e = climb (node_of e) (ctx e)"

text \<open>
  The nodes \<open>todo\<close> of one parent as lxml objects, in document order; \<open>l\<close> are the nodes
  before them (nearest first) and \<open>r\<close> the nodes after them.
\<close>

fun locate :: "(node list \<Rightarrow> node list \<Rightarrow> frame) \<Rightarrow> frame list \<Rightarrow> node list \<Rightarrow> node \<Rightarrow> node list
    \<Rightarrow> lxml_node" where
  "locate mk up l (Elem g a x ks t) r = HtmlElement (Element g a x ks t (mk l r # up))"
| "locate mk up l (Other t) r = HtmlComment"

fun located :: "(node list \<Rightarrow> node list \<Rightarrow> frame) \<Rightarrow> frame list \<Rightarrow> node list \<Rightarrow> node list
    \<Rightarrow> node list \<Rightarrow> lxml_node list" where
  "located mk up l [] r = []"
| "located mk up l (n # ns) r = locate mk up l n (ns @ r) # located mk up (n # l) ns r"

text \<open>\<open>element.iterchildren()\<close>\<close>

definition iterchildren :: "element \<Rightarrow> lxml_node list" where
  "iterchildren e = located (frame_of e) (ctx e) [] (kids e) []"

text \<open>\<open>element.itersiblings(preceding=...)\<close>: preceding siblings come nearest first.\<close>

definition itersiblings :: "element \<Rightarrow> bool \<Rightarrow> lxml_node list" where
  "itersiblings e preceding =
     (case ctx e of
        [] \<Rightarrow> []
      | Frame g a x t l r # up \<Rightarrow>
          if preceding then rev (located (Frame g a x t) up [] (rev l) (node_of e # r))
          else located (Frame g a x t) up (node_of e # l) r [])"

text \<open>\<open>element.iterdescendants()\<close>: every node below the element, in document order.\<close>

fun descend :: "(node list \<Rightarrow> node list \<Rightarrow> frame) \<Rightarrow> frame list \<Rightarrow> node list \<Rightarrow> node list
    \<Rightarrow> lxml_node list" where
  "descend mk up l [] = []"
| "descend mk up l (Other t # ns) = HtmlComment # descend mk up (Other t # l) ns"
| "descend mk up l (Elem g a x ks t # ns) =
     HtmlElement (Element g a x ks t (mk l ns # up))
       # descend (Frame g a x t) (mk l ns # up) [] ks
       @ descend mk up (Elem g a x ks t # l) ns"

definition iterdescendants :: "element \<Rightarrow> lxml_node list" where
  "iterdescendants e = descend (frame_of e) (ctx e) [] (kids e)"

text \<open>The filter \<open>isinstance(x, HtmlElement)\<close> of the iterating helpers.\<close>

fun html_elements :: "lxml_node list \<Rightarrow> element list" where
  "html_elements [] = []"
| "html_elements (HtmlElement e # xs) = e # html_elements xs"
| "html_elements (HtmlComment # xs) = html_elements xs"

subsection \<open>The XPath queries the code issues\<close>

text \<open>\<open>element.xpath('.//a')\<close> and \<open>'.//p'\<close>: the elements of that name strictly below.\<close>

definition xpath_below :: "string \<Rightarrow> element \<Rightarrow> element list" where
  "xpath_below name e = filter (\<lambda>d. tag d = name) (html_elements (iterdescendants e))"

text \<open>The root element of the document an element belongs to.\<close>

definition docroot :: "element \<Rightarrow> element" where
  "docroot e = (case ancestors e of [] \<Rightarrow> e | _ # _ \<Rightarrow> last (ancestors e))"

text \<open>\<open>element.xpath('//body')\<close> and \<open>'//head'\<close>: the elements of that name anywhere in
  the document.\<close>

definition xpath_anywhere :: "string \<Rightarrow> element \<Rightarrow> element list" where
  "xpath_anywhere name e =
     filter (\<lambda>d. tag d = name) (docroot e # html_elements (iterdescendants (docroot e)))"

text \<open>A text node is never empty: an absent \<open>.text\<close> or \<open>.tail\<close> is the empty string here.\<close>

definition text_node :: "string \<Rightarrow> string list" where
  "text_node s = (if s = [] then [] else [s])"

text \<open>\<open>element.xpath('.//text()')\<close>: the text nodes below a node, in document order.\<close>

fun texts_below :: "node \<Rightarrow> string list" where
  "texts_below (Elem g a x ks t) =
     text_node x @ concat (map (\<lambda>k. texts_below k @ text_node (ntail k)) ks)"
| "texts_below (Other t) = []"

text \<open>\<open>element.xpath('.//a//text()')\<close>: the text nodes that lie below some \<open>a\<close> element
  strictly below the context element; \<open>inside\<close> says that such an \<open>a\<close> has been entered.\<close>

fun a_texts :: "bool \<Rightarrow> node \<Rightarrow> string list" where
  "a_texts inside (Elem g a x ks t) =
     (let ins = (inside \<or> g = ''a'') in
      (if ins then text_node x else [])
        @ concat (map (\<lambda>k. a_texts ins k @ (if ins then text_node (ntail k) else [])) ks))"
| "a_texts inside (Other t) = []"

definition xpath_a_texts :: "element \<Rightarrow> string list" where
  "xpath_a_texts e = concat (map (a_texts False) (kids e))"

subsection \<open>Regular expressions and formatting\<close>

text \<open>The characters \<open>\s\<close> matches in a Python \<open>str\<close> pattern, below code point 256.\<close>

definition is_space :: "char \<Rightarrow> bool" where
  "is_space c = (of_char c \<in> set [9, 10, 11, 12, 13, 28, 29, 30, 31, 32, 133, 160 :: nat])"

text \<open>\<open>re.sub(r'\s*', '', s)\<close>\<close>

definition re_sub_ws :: "string \<Rightarrow> string" where
  "re_sub_ws s = filter (\<lambda>c. \<not> is_space c) s"

definition digit_char :: "nat \<Rightarrow> char" where
  "digit_char d = ''0123456789'' ! d"

text \<open>\<open>str(n)\<close> of a natural number, as an f-string prints it.\<close>

fun str_nat :: "nat \<Rightarrow> string" where
  "str_nat n = (if n < 10 then [digit_char n] else str_nat (n div 10) @ [digit_char (n mod 10)])"

declare str_nat.simps [simp del]

section \<open>utils/element.py\<close>

text \<open>
  An argument of type \<open>Element\<close> may be \<open>None\<close>: it is an \<open>element option\<close>. A property of
  the \<open>Element\<close> class (\<open>element.alias\<close>, \<open>element.number_of_char\<close>, ...) is the cached value
  of the function of the same name below, so reading it is calling the function; reading
  any attribute of \<open>None\<close> raises \<open>AttributeError\<close>. A generator is the list of what it
  yields. The collaborator \<open>similarity\<close> (utils/similarity.py) is a parameter, and numpy's
  floating-point numbers are idealised as real numbers. A value \<open>Inl err\<close> stands for the
  builtin exception \<open>err\<close> being raised; nothing in these files catches an exception.
\<close>

text \<open>
  The class of an lxml object. An object lxml hands out is a plain \<open>HtmlElement\<close>, which
  has none of the properties of the \<open>Element\<close> class, until the code assigns \<open>Element\<close> to
  its \<open>__class__\<close>. The store lists the objects that are of class \<open>Element\<close>. The
  argument of a function below is of class \<open>Element\<close> (or \<open>None\<close>), as the signatures
  say; \<open>html2element\<close> assigns the class to the root it returns, and the iterating helpers
  (\<open>children\<close>, \<open>siblings\<close>, \<open>descendants\<close>, \<open>a_descendants\<close>, \<open>descendants_of_body\<close>) to every
  object they yield. Only an object obtained from \<open>parent\<close> can be a plain \<open>HtmlElement\<close>.
\<close>

type_synonym store = "element list"

text \<open>\<open>isinstance(parent, ModuleType)\<close>: an lxml object is never a module.\<close>

definition isinstance_ModuleType :: "element \<Rightarrow> bool" where
  "isinstance_ModuleType x = False"

text \<open>\<open>parent\<close>: the object \<open>getparent\<close> returns, and what the call does to the store: the
  class is assigned only under the test above, so the object returned keeps the class it
  has.\<close>

fun parent :: "element option \<Rightarrow> element option" where
  "parent None = None"
| "parent (Some e) = getparent e"

definition parent_store :: "store \<Rightarrow> element option \<Rightarrow> store" where
  "parent_store st element =
     (case parent element of
        None \<Rightarrow> st
      | Some p \<Rightarrow> if isinstance_ModuleType p then p # st else st)"

fun children :: "element option \<Rightarrow> bool \<Rightarrow> element list" where
  "children None including = []"
| "children (Some e) including =
     (if including then [e] else []) @ html_elements (iterchildren e)"

fun siblings :: "element option \<Rightarrow> bool \<Rightarrow> element list" where
  "siblings None including = []"
| "siblings (Some e) including =
     (if including then [e] else [])
       @ html_elements (itersiblings e True) @ html_elements (itersiblings e False)"

fun descendants :: "element option \<Rightarrow> bool \<Rightarrow> element list" where
  "descendants None including = []"
| "descendants (Some e) including =
     (if including then [e] else []) @ html_elements (iterdescendants e)"

text \<open>The loop of \<open>alias\<close> over \<open>element.attrib.items()\<close>, appending to \<open>attribs\<close>.\<close>

fun alias_loop :: "attrs \<Rightarrow> string list \<Rightarrow> string list" where
  "alias_loop [] attribs = attribs"
| "alias_loop ((k, v) # items) attribs =
     (let k' = re_sub_ws k; v' = re_sub_ws v in
      alias_loop items
        (attribs @ [if v' \<noteq> [] then ''['' @ k' @ ''='' @ [CHR 0x22] @ v' @ [CHR 0x22] @ '']''
                    else ''['' @ k' @ '']'']))"

fun alias_of :: "element option \<Rightarrow> string" where
  "alias_of None = []"
| "alias_of (Some e) =
     (let attribs = alias_loop (attrib e) [tag e];
          result = concat attribs;
          nth = length (itersiblings e True) + 1
      in result @ (if nth \<noteq> 1 then ''::nth-child('' @ str_nat nth @ '')'' else []))"

lemma getparent_shorter: "getparent e = Some p \<Longrightarrow> length (ctx p) < length (ctx e)"
  by (cases e) (auto simp: getparent_def split: list.splits frame.splits)

text \<open>Reading the property \<open>alias\<close> of an object: a plain \<open>HtmlElement\<close> has no such
  attribute.\<close>

definition read_alias :: "store \<Rightarrow> element \<Rightarrow> error + string" where
  "read_alias st e = (if e \<in> set st then Inr (alias_of (Some e)) else Inl AttributeError)"

text \<open>\<open>selector\<close>: the selector of the parent is computed first, then the property
  \<open>alias\<close> of the element is read; either fails when the object is not of class
  \<open>Element\<close>.\<close>

function selector :: "store \<Rightarrow> element option \<Rightarrow> error + string" where
  "selector st None = Inr []"
| "selector st (Some e) =
     (case parent (Some e) of
        Some p \<Rightarrow>
          (case selector (parent_store st (Some e)) (Some p) of
             Inl err \<Rightarrow> Inl err
           | Inr s \<Rightarrow>
               (case read_alias (parent_store st (Some e)) e of
                  Inl err \<Rightarrow> Inl err
                | Inr a \<Rightarrow> Inr (s @ ''>'' @ a)))
      | None \<Rightarrow> read_alias (parent_store st (Some e)) e)"
  by pat_completeness auto
termination
  by (relation "measure (\<lambda>(st, x). case x of None \<Rightarrow> 0 | Some e \<Rightarrow> Suc (length (ctx e)))")
     (auto dest: getparent_shorter)

declare selector.simps(2) [simp del]

text \<open>\<open>path_raw\<close> reads \<open>element.tag\<close> only, an attribute of every lxml element, whatever
  its class.\<close>

function path_raw :: "element option \<Rightarrow> string" where
  "path_raw None = []"
| "path_raw (Some e) =
     (case parent (Some e) of
        Some p \<Rightarrow> path_raw (Some p) @ ''/'' @ tag e
      | None \<Rightarrow> tag e)"
  by pat_completeness auto
termination
  by (relation "measure (\<lambda>x. case x of None \<Rightarrow> 0 | Some e \<Rightarrow> Suc (length (ctx e)))")
     (auto dest: getparent_shorter)

fun path :: "element option \<Rightarrow> string" where
  "path None = []"
| "path (Some e) =
     (let result = path_raw (Some e);
          nth = length (itersiblings e True) + 1
      in result @ (if nth \<noteq> 1 then '':nth-child('' @ str_nat nth @ '')'' else []))"

fun a_descendants :: "element option \<Rightarrow> element list" where
  "a_descendants None = []"
| "a_descendants (Some e) = xpath_below ''a'' e"

text \<open>\<open>result[p].append(x)\<close> on a \<open>defaultdict(list)\<close>; a dictionary is the list of its
  items in insertion order.\<close>

fun dict_append :: "('k \<times> 'v list) list \<Rightarrow> 'k \<Rightarrow> 'v \<Rightarrow> ('k \<times> 'v list) list" where
  "dict_append [] k v = [(k, [v])]"
| "dict_append ((k', vs) # d) k v =
     (if k' = k then (k', vs @ [v]) # d else (k', vs) # dict_append d k v)"

fun a_descendants_group :: "element option \<Rightarrow> error + (string \<times> element list) list" where
  "a_descendants_group None = Inl AttributeError"
| "a_descendants_group (Some e) =
     Inr (foldl (\<lambda>result linked_descendant.
                   dict_append result (path_raw (Some linked_descendant)) linked_descendant)
                [] (a_descendants (Some e)))"

text \<open>\<open>children_of_head\<close> assigns \<open>__class__\<close> on the list \<open>xpath\<close> returned, which Python
  refuses with a \<open>TypeError\<close>.\<close>

fun children_of_head :: "element option \<Rightarrow> error + element list" where
  "children_of_head None = Inr []"
| "children_of_head (Some e) =
     (if xpath_anywhere ''head'' e \<noteq> [] then Inl TypeError else Inr [])"

fun descendants_of_body :: "element option \<Rightarrow> element list" where
  "descendants_of_body None = []"
| "descendants_of_body (Some e) =
     (case xpath_anywhere ''body'' e of
        b # _ \<Rightarrow> descendants (Some b) True
      | [] \<Rightarrow> [])"

fun text_of :: "element option \<Rightarrow> pyval" where
  "text_of None = PyInt 0"
| "text_of (Some e) = PyStr (re_sub_ws (concat (texts_below (node_of e))))"

text \<open>\<open>len(x)\<close> of a Python value.\<close>

fun len :: "pyval \<Rightarrow> error + nat" where
  "len (PyStr s) = Inr (length s)"
| "len (PyInt i) = Inl TypeError"

definition number_of_char :: "element option \<Rightarrow> error + nat" where
  "number_of_char element = len (text_of element)"

fun number_of_a_char :: "element option \<Rightarrow> nat" where
  "number_of_a_char None = 0"
| "number_of_a_char (Some e) = length (re_sub_ws (concat (xpath_a_texts e)))"

fun number_of_p_descendants :: "element option \<Rightarrow> nat" where
  "number_of_p_descendants None = 0"
| "number_of_p_descendants (Some e) = length (xpath_below ''p'' e)"

fun number_of_a_descendants :: "element option \<Rightarrow> nat" where
  "number_of_a_descendants None = 0"
| "number_of_a_descendants (Some e) = length (xpath_below ''a'' e)"

text \<open>The members of \<open>PUNCTUATION\<close> below code point 256.\<close>

definition PUNCTUATION :: "char set" where
  "PUNCTUATION = set (''%()<>{}*`,.?:;!'' @ [CHR 0x27, CHR 0x22])"

fun number_of_punctuation :: "element option \<Rightarrow> nat" where
  "number_of_punctuation None = 0"
| "number_of_punctuation (Some e) =
     length (filter (\<lambda>c. c \<in> PUNCTUATION) (re_sub_ws (concat (texts_below (node_of e)))))"

fun number_of_descendants :: "element option \<Rightarrow> nat" where
  "number_of_descendants None = 0"
| "number_of_descendants (Some e) = length (descendants (Some e) False)"

fun number_of_siblings :: "element option \<Rightarrow> nat" where
  "number_of_siblings None = 0"
| "number_of_siblings (Some e) = length (siblings (Some e) False)"

fun number_of_children :: "element option \<Rightarrow> nat" where
  "number_of_children None = 0"
| "number_of_children (Some e) = length (children (Some e) False)"

fun density_of_text :: "element option \<Rightarrow> error + real" where
  "density_of_text None = Inl AttributeError"
| "density_of_text (Some e) =
     (if int (number_of_descendants (Some e)) - int (number_of_a_descendants (Some e)) = 0
      then Inr 0
      else case number_of_char (Some e) of
             Inl err \<Rightarrow> Inl err
           | Inr n \<Rightarrow>
               Inr ((real n - real (number_of_a_char (Some e)))
                    / (real (number_of_descendants (Some e))
                       - real (number_of_a_descendants (Some e)))))"

fun density_of_punctuation :: "element option \<Rightarrow> error + real" where
  "density_of_punctuation None = Inl AttributeError"
| "density_of_punctuation (Some e) =
     (case number_of_char (Some e) of
        Inl err \<Rightarrow> Inl err
      | Inr n \<Rightarrow>
          (let result = (real n - real (number_of_a_char (Some e)))
                        / (real (number_of_punctuation (Some e)) + 1)
           in Inr (if result \<noteq> 0 then result else 1)))"

fun similarity_with_element ::
    "(string \<Rightarrow> string \<Rightarrow> real) \<Rightarrow> element option \<Rightarrow> element option \<Rightarrow> error + real" where
  "similarity_with_element similarity (Some e1) (Some e2) =
     Inr (similarity (alias_of (Some e1)) (alias_of (Some e2)))"
| "similarity_with_element similarity _ _ = Inl AttributeError"

text \<open>\<open>similarity_with_siblings\<close>: the loop ends at the first score that cannot be
  computed; without siblings the result is 0, otherwise the mean of the scores.\<close>

fun sibling_scores ::
    "(string \<Rightarrow> string \<Rightarrow> real) \<Rightarrow> element option \<Rightarrow> element list \<Rightarrow> real list \<Rightarrow> error + real list"
    where
  "sibling_scores similarity element [] scores = Inr scores"
| "sibling_scores similarity element (sibling # rest) scores =
     (case similarity_with_element similarity element (Some sibling) of
        Inl err \<Rightarrow> Inl err
      | Inr score \<Rightarrow> sibling_scores similarity element rest (scores @ [score]))"

definition mean :: "real list \<Rightarrow> real" where
  "mean xs = sum_list xs / real (length xs)"

definition similarity_with_siblings ::
    "(string \<Rightarrow> string \<Rightarrow> real) \<Rightarrow> element option \<Rightarrow> error + real" where
  "similarity_with_siblings similarity element =
     (case sibling_scores similarity element (siblings element False) [] of
        Inl err \<Rightarrow> Inl err
      | Inr scores \<Rightarrow> Inr (if scores = [] then 0 else mean scores))"

text \<open>\<open>html2element\<close>; the parser \<open>fromstring\<close> of lxml is a parameter.\<close>

definition truthy :: "string option \<Rightarrow> bool" where
  "truthy s = (case s of None \<Rightarrow> False | Some x \<Rightarrow> x \<noteq> [])"

definition html2element ::
    "(string \<Rightarrow> error + element) \<Rightarrow> string option \<Rightarrow> error + element option" where
  "html2element fromstring html =
     (if \<not> truthy html then Inr None
      else case fromstring (the html) of Inl err \<Rightarrow> Inl err | Inr element \<Rightarrow> Inr (Some element))"

section \<open>extractors/list.py\<close>

text \<open>
  The collaborators of the list extractor whose code is not part of these sources are
  parameters: the string similarity, the grouping utility \<open>cluster_dict\<close>, the
  preprocessing of the tree, lxml's parser, and the two cached length features of the
  \<open>Element\<close> class that \<open>_build_clusters\<close> reads.
\<close>

record collaborators =
  similarity :: "string \<Rightarrow> string \<Rightarrow> real"
  cluster_dict :: "(string \<times> element list) list \<Rightarrow> (int \<times> element list) list"
  preprocess4list :: "element \<Rightarrow> element"
  fromstring :: "string \<Rightarrow> error + element"
  linked_descendants_group_text_min_length :: "element \<Rightarrow> real"
  linked_descendants_group_text_max_length :: "element \<Rightarrow> real"

text \<open>Modelled from the spec: the property \<open>parent_selector\<close> of the \<open>Element\<close> class
  (schemas/element.py), the selector of the element's parent.\<close>

definition parent_selector :: "store \<Rightarrow> element \<Rightarrow> error + string" where
  "parent_selector st e = selector (parent_store st (Some e)) (parent (Some e))"

text \<open>The objects of class \<open>Element\<close> while \<open>_build_clusters\<close> runs: its argument, and the
  \<open>body\<close> and its descendants, which \<open>descendants_of_body\<close> has returned.\<close>

definition element_objects :: "element option \<Rightarrow> store" where
  "element_objects element =
     (case element of None \<Rightarrow> [] | Some e \<Rightarrow> [e]) @ descendants_of_body element"

text \<open>Modelled from the spec: the property \<open>linked_descendants\<close> of the \<open>Element\<close> class
  (schemas/element.py), all hyperlink descendants, which \<open>a_descendants\<close> computes.\<close>

definition linked_descendants :: "element \<Rightarrow> element list" where
  "linked_descendants e = a_descendants (Some e)"

text \<open>Modelled from the spec: the property \<open>tag_path\<close> of the \<open>Element\<close> class
  (schemas/element.py), the ancestor chain of bare tag names, which \<open>path_raw\<close> computes.\<close>

definition tag_path :: "element \<Rightarrow> string" where
  "tag_path e = path_raw (Some e)"

text \<open>The attribute \<open>element.similarity_with_siblings\<close> that \<open>_build_clusters\<close> stores on
  an element: the value \<open>similarity_with_siblings\<close> returned for it.\<close>

definition stored_similarity :: "collaborators \<Rightarrow> element \<Rightarrow> real" where
  "stored_similarity c e =
     (case similarity_with_siblings (similarity c) (Some e) of Inr v \<Rightarrow> v | Inl err \<Rightarrow> 0)"

definition LIST_MIN_NUMBER :: int where "LIST_MIN_NUMBER = 5"
definition LIST_MIN_LENGTH :: real where "LIST_MIN_LENGTH = 8"
definition LIST_MAX_LENGTH :: real where "LIST_MAX_LENGTH = 35"
definition SIMILARITY_THRESHOLD :: real where "SIMILARITY_THRESHOLD = 0.8"

record extractor =
  min_number :: int
  min_length :: real
  max_length :: real
  avg_length :: real
  similarity_threshold :: real

text \<open>\<open>ListExtractor.__init__\<close> and the module's instance \<open>list_extractor\<close>.\<close>

definition ListExtractor :: "int \<Rightarrow> real \<Rightarrow> real \<Rightarrow> real \<Rightarrow> extractor" where
  "ListExtractor mn mi ma st =
     \<lparr>min_number = mn, min_length = mi, max_length = ma, avg_length = (mi + ma) / 2,
      similarity_threshold = st\<rparr>"

definition list_extractor :: extractor where
  "list_extractor =
     ListExtractor LIST_MIN_NUMBER LIST_MIN_LENGTH LIST_MAX_LENGTH SIMILARITY_THRESHOLD"

definition probability_of_title_with_length :: "extractor \<Rightarrow> nat \<Rightarrow> real" where
  "probability_of_title_with_length self n =
     exp (- 1 * ((real n - avg_length self)\<^sup>2) / (2 * 6\<^sup>2)) / (sqrt (2 * pi) * 6)"

subsection \<open>\<open>_build_clusters\<close>\<close>

text \<open>The loop over the descendants of \<open>body\<close>; every \<open>continue\<close> goes on with the
  dictionary unchanged, and the loop ends at the first parent selector that cannot be
  computed.\<close>

fun build_loop :: "collaborators \<Rightarrow> extractor \<Rightarrow> store \<Rightarrow> element list
    \<Rightarrow> (string \<times> element list) list \<Rightarrow> error + (string \<times> element list) list" where
  "build_loop c self st [] descendants_tree = Inr descendants_tree"
| "build_loop c self st (descendant # rest) descendants_tree =
     (if int (number_of_siblings (Some descendant)) + 1 < min_number self
        then build_loop c self st rest descendants_tree
      else if linked_descendants_group_text_min_length c descendant > max_length self
        then build_loop c self st rest descendants_tree
      else if linked_descendants_group_text_max_length c descendant < min_length self
        then build_loop c self st rest descendants_tree
      else case similarity_with_siblings (similarity c) (Some descendant) of
             Inl err \<Rightarrow> Inl err
           | Inr sws \<Rightarrow>
               if sws < similarity_threshold self
                 then build_loop c self st rest descendants_tree
               else case parent_selector st descendant of
                      Inl err \<Rightarrow> Inl err
                    | Inr key \<Rightarrow>
                        build_loop c self st rest
                          (dict_append descendants_tree key descendant))"

definition descendants_tree ::
    "collaborators \<Rightarrow> extractor \<Rightarrow> element option \<Rightarrow> error + (string \<times> element list) list" where
  "descendants_tree c self element =
     build_loop c self (element_objects element) (descendants_of_body element) []"

text \<open>\<open>del d[k]\<close>\<close>

definition dict_del :: "('k \<times> 'v) list \<Rightarrow> 'k \<Rightarrow> error + ('k \<times> 'v) list" where
  "dict_del d k =
     (if k \<in> fst ` set d then Inr (filter (\<lambda>item. fst item \<noteq> k) d) else Inl KeyError)"

text \<open>The tree cut: the walk over the selectors in descending order.\<close>

fun cut_loop :: "string option \<Rightarrow> string list \<Rightarrow> (string \<times> 'v) list \<Rightarrow> error + (string \<times> 'v) list"
    where
  "cut_loop last_selector [] tree = Inr tree"
| "cut_loop last_selector (sel # rest) tree =
     (if truthy last_selector \<and> sel \<noteq> [] \<and> prefix sel (the last_selector)
      then case dict_del tree sel of
             Inl err \<Rightarrow> Inl err
           | Inr tree' \<Rightarrow> cut_loop (Some sel) rest tree'
      else cut_loop (Some sel) rest tree)"

definition tree_cut :: "(string \<times> 'v) list \<Rightarrow> error + (string \<times> 'v) list" where
  "tree_cut tree = (let selectors = sort (map fst tree) in cut_loop None (rev selectors) tree)"

definition build_clusters ::
    "collaborators \<Rightarrow> extractor \<Rightarrow> element option \<Rightarrow> error + (int \<times> element list) list" where
  "build_clusters c self element =
     (case descendants_tree c self element of
        Inl err \<Rightarrow> Inl err
      | Inr tree \<Rightarrow>
          (case tree_cut tree of
             Inl err \<Rightarrow> Inl err
           | Inr pruned \<Rightarrow> Inr (cluster_dict c pruned)))"

subsection \<open>\<open>_choose_best_cluster\<close>\<close>

text \<open>\<open>np.mean\<close>: of an empty list it is \<open>nan\<close>, here \<open>None\<close>; every comparison with \<open>nan\<close>
  is false.\<close>

definition np_mean :: "real list \<Rightarrow> real option" where
  "np_mean xs = (if xs = [] then None else Some (mean xs))"

fun float_gt :: "real option \<Rightarrow> real option \<Rightarrow> bool" where
  "float_gt (Some a) (Some b) = (a > b)"
| "float_gt _ _ = False"

definition clusters_score :: "collaborators \<Rightarrow> element list \<Rightarrow> real option" where
  "clusters_score c cluster = np_mean (map (stored_similarity c) cluster)"

fun score_loop :: "collaborators \<Rightarrow> (int \<times> element list) list \<Rightarrow> int \<Rightarrow> real option
    \<Rightarrow> int \<times> real option" where
  "score_loop c [] clusters_score_arg_max clusters_score_max =
     (clusters_score_arg_max, clusters_score_max)"
| "score_loop c ((cluster_id, cluster) # rest) clusters_score_arg_max clusters_score_max =
     (if float_gt (clusters_score c cluster) clusters_score_max
      then score_loop c rest cluster_id (clusters_score c cluster)
      else score_loop c rest clusters_score_arg_max clusters_score_max)"

definition choose_best_cluster ::
    "collaborators \<Rightarrow> (int \<times> element list) list \<Rightarrow> error + element list" where
  "choose_best_cluster c clusters =
     (case map_of clusters (fst (score_loop c clusters 0 (Some (- 1)))) of
        None \<Rightarrow> Inl KeyError
      | Some best_cluster \<Rightarrow> Inr best_cluster)"

subsection \<open>\<open>_extract_from_cluster\<close>\<close>

record result_record =
  title :: pyval
  href :: string

text \<open>The two nested loops run over the linked descendants of the cluster's elements, one
  element after the other.\<close>

definition cluster_links :: "element list \<Rightarrow> element list" where
  "cluster_links cluster = concat (map linked_descendants cluster)"

fun title_loop :: "extractor \<Rightarrow> element list \<Rightarrow> (string \<times> real list) list
    \<Rightarrow> error + (string \<times> real list) list" where
  "title_loop self [] probabilities_of_title = Inr probabilities_of_title"
| "title_loop self (descendant # rest) probabilities_of_title =
     (case len (text_of (Some descendant)) of
        Inl err \<Rightarrow> Inl err
      | Inr n \<Rightarrow>
          title_loop self rest
            (dict_append probabilities_of_title (tag_path descendant)
               (probability_of_title_with_length self n)))"

text \<open>\<open>max(items, key=operator.itemgetter(1))\<close>: the first item no later item exceeds;
  of no items, a \<open>ValueError\<close>.\<close>

fun max_loop :: "'a \<times> real option \<Rightarrow> ('a \<times> real option) list \<Rightarrow> 'a \<times> real option" where
  "max_loop best [] = best"
| "max_loop best (item # rest) =
     (if float_gt (snd item) (snd best) then max_loop item rest else max_loop best rest)"

definition py_max :: "('a \<times> real option) list \<Rightarrow> error + 'a \<times> real option" where
  "py_max items = (case items of [] \<Rightarrow> Inl ValueError | item # rest \<Rightarrow> Inr (max_loop item rest))"

fun extract_loop :: "string \<Rightarrow> element list \<Rightarrow> result_record list \<Rightarrow> result_record list" where
  "extract_loop best_tag_path [] result = result"
| "extract_loop best_tag_path (descendant # rest) result =
     (if tag_path descendant \<noteq> best_tag_path then extract_loop best_tag_path rest result
      else if \<not> truthy (map_of (attrib descendant) ''href'')
        then extract_loop best_tag_path rest result
      else extract_loop best_tag_path rest
             (result @ [\<lparr>title = text_of (Some descendant),
                         href = the (map_of (attrib descendant) ''href'')\<rparr>]))"

definition best_tag_path :: "extractor \<Rightarrow> element list \<Rightarrow> error + string" where
  "best_tag_path self cluster =
     (case title_loop self (cluster_links cluster) [] of
        Inl err \<Rightarrow> Inl err
      | Inr probabilities_of_title \<Rightarrow>
          (case py_max (map (\<lambda>(k, v). (k, np_mean v)) probabilities_of_title) of
             Inl err \<Rightarrow> Inl err
           | Inr best \<Rightarrow> Inr (fst best)))"

definition extract_from_cluster :: "extractor \<Rightarrow> element list \<Rightarrow> error + result_record list"
    where
  "extract_from_cluster self cluster =
     (case best_tag_path self cluster of
        Inl err \<Rightarrow> Inl err
      | Inr best \<Rightarrow> Inr (extract_loop best (cluster_links cluster) []))"

subsection \<open>\<open>process\<close> and the entry point\<close>

definition process :: "collaborators \<Rightarrow> extractor \<Rightarrow> element \<Rightarrow> error + result_record list" where
  "process c self element =
     (case build_clusters c self (Some (preprocess4list c element)) of
        Inl err \<Rightarrow> Inl err
      | Inr clusters \<Rightarrow>
          (case choose_best_cluster c clusters of
             Inl err \<Rightarrow> Inl err
           | Inr best_cluster \<Rightarrow> extract_from_cluster self best_cluster))"

text \<open>Modelled from the spec: \<open>BaseExtractor.extract\<close> (extractors/base.py), which parses
  the markup and hands the tree to \<open>process\<close>; for empty or absent markup it returns an
  empty result at once.\<close>

definition extract_html ::
    "collaborators \<Rightarrow> extractor \<Rightarrow> string option \<Rightarrow> error + result_record list" where
  "extract_html c self html =
     (case html2element (fromstring c) html of
        Inl err \<Rightarrow> Inl err
      | Inr None \<Rightarrow> Inr []
      | Inr (Some element) \<Rightarrow> process c self element)"

definition extract_list :: "collaborators \<Rightarrow> string option \<Rightarrow> error + result_record list" where
  "extract_list c html = extract_html c list_extractor html"

section \<open>The specification's wording\<close>

text \<open>The alias as the specification describes it: the tag, every attribute rendered with
  the whitespace removed from its name and value, and the position among the siblings.\<close>

definition render_attribute :: "string \<times> string \<Rightarrow> string" where
  "render_attribute item =
     (let name = re_sub_ws (fst item); v = re_sub_ws (snd item) in
      if v = [] then ''['' @ name @ '']''
      else ''['' @ name @ ''='' @ [CHR 0x22] @ v @ [CHR 0x22] @ '']'')"

definition preceding_siblings :: "element \<Rightarrow> node list" where
  "preceding_siblings e = (case ctx e of [] \<Rightarrow> [] | f # up \<Rightarrow> fleft f)"

definition alias_spec :: "element option \<Rightarrow> string" where
  "alias_spec x =
     (case x of
        None \<Rightarrow> []
      | Some e \<Rightarrow>
          (let n = length (preceding_siblings e) + 1 in
           tag e @ concat (map render_attribute (attrib e))
             @ (if n = 1 then [] else ''::nth-child('' @ str_nat n @ '')'')))"

text \<open>The four conditions under which the cluster builder keeps a descendant of
  \<open>body\<close>.\<close>

definition is_candidate :: "collaborators \<Rightarrow> extractor \<Rightarrow> element \<Rightarrow> bool" where
  "is_candidate c self d =
     (int (number_of_siblings (Some d)) + 1 \<ge> min_number self
      \<and> linked_descendants_group_text_min_length c d \<le> max_length self
      \<and> linked_descendants_group_text_max_length c d \<ge> min_length self
      \<and> stored_similarity c d \<ge> similarity_threshold self)"

text \<open>The group a dictionary of groups holds under a key (none: the empty group), and all
  the members of its groups.\<close>

definition group_of :: "('k \<times> 'v list) list \<Rightarrow> 'k \<Rightarrow> 'v list" where
  "group_of d k = (case map_of d k of None \<Rightarrow> [] | Some g \<Rightarrow> g)"

definition survivors :: "('k \<times> 'v list) list \<Rightarrow> 'v list" where
  "survivors d = concat (map snd d)"

text \<open>The descendants that survive the filter of the cluster builder.\<close>

definition surviving :: "collaborators \<Rightarrow> extractor \<Rightarrow> element option \<Rightarrow> element list" where
  "surviving c self element =
     (case descendants_tree c self element of Inl err \<Rightarrow> [] | Inr tree \<Rightarrow> survivors tree)"

text \<open>The record the assembler emits for a linked descendant.\<close>

definition link_record :: "element \<Rightarrow> result_record" where
  "link_record d =
     \<lparr>title = text_of (Some d), href = the (map_of (attrib d) ''href'')\<rparr>"

text \<open>The arithmetic mean of the stored similarities of a cluster's members.\<close>

definition mean_similarity :: "collaborators \<Rightarrow> element list \<Rightarrow> real" where
  "mean_similarity c cluster = sum_list (map (stored_similarity c) cluster) / real (length cluster)"

section \<open>Example documents\<close>

text \<open>Collaborators for the examples: every two aliases are fully similar, all groups are
  merged into the one cluster 0, preprocessing changes nothing, and every length feature
  is 10.\<close>

definition demo_collaborators :: collaborators where
  "demo_collaborators =
     \<lparr>similarity = (\<lambda>a b. 1),
      cluster_dict = (\<lambda>d. if d = [] then [] else [(0, concat (map snd d))]),
      preprocess4list = (\<lambda>e. e),
      fromstring = (\<lambda>s. Inl ParserError),
      linked_descendants_group_text_min_length = (\<lambda>e. 10),
      linked_descendants_group_text_max_length = (\<lambda>e. 10)\<rparr>"

text \<open>The third node below a \<open>ul\<close>, after a comment and another item; one attribute value
  holds a blank, another is blank only.\<close>

definition demo_item :: element where
  "demo_item =
     Element ''li'' [(''class'', ''a b''), (''data x'', '' '')] [] [] []
       [Frame ''ul'' [] [] [] [Other [], Elem ''li'' [] [] [] []] []]"

text \<open>An extractor that asks for two peers only, and a \<open>body\<close> of two paragraphs without
  any link.\<close>

definition demo_extractor :: extractor where
  "demo_extractor = ListExtractor 2 8 35 0.8"

definition demo_body :: element where
  "demo_body = Element ''body'' [] [] [Elem ''p'' [] ''x'' [] [], Elem ''p'' [] ''y'' [] []] [] []"

definition demo_p1 :: element where
  "demo_p1 = Element ''p'' [] ''x'' [] []
               [Frame ''body'' [] [] [] [] [Elem ''p'' [] ''y'' [] []]]"

definition demo_p2 :: element where
  "demo_p2 = Element ''p'' [] ''y'' [] []
               [Frame ''body'' [] [] [] [Elem ''p'' [] ''x'' [] []] []]"

text \<open>Rows of a list: one whose link has no text, one with three links of which one has a
  target, a row that is itself a link, and a fragment without \<open>body\<close>.\<close>

definition demo_row_blank :: element where
  "demo_row_blank =
     Element ''li'' [] [] [Elem ''a'' [(''href'', ''/x'')] [] [] []] []
       [Frame ''ul'' [] [] [] [] []]"

definition demo_row :: element where
  "demo_row =
     Element ''li'' [] []
       [Elem ''a'' [(''href'', ''/p/1'')] ''Item 1'' [] [],
        Elem ''a'' [] ''More'' [] [],
        Elem ''a'' [(''href'', [])] ''Top'' [] []] []
       [Frame ''ul'' [] [] [] [] []]"

definition demo_anchor_row :: element where
  "demo_anchor_row =
     Element ''a'' [(''href'', ''/x'')] ''A title'' [] [] [Frame ''ul'' [] [] [] [] []]"

definition demo_fragment :: element where
  "demo_fragment = Element ''div'' [] [] [] [] []"

text \<open>The test of the tree cut, the selectors the walk deletes and those it keeps.\<close>

definition hit :: "string option \<Rightarrow> string \<Rightarrow> bool" where
  "hit last_selector sel = (truthy last_selector \<and> sel \<noteq> [] \<and> prefix sel (the last_selector))"

fun doomed :: "string option \<Rightarrow> string list \<Rightarrow> string list" where
  "doomed last_selector [] = []"
| "doomed last_selector (sel # rest) =
     (if hit last_selector sel then sel # doomed (Some sel) rest else doomed (Some sel) rest)"

fun kept :: "string option \<Rightarrow> string list \<Rightarrow> string list" where
  "kept last_selector [] = []"
| "kept last_selector (sel # rest) =
     (if hit last_selector sel then kept (Some sel) rest else sel # kept (Some sel) rest)"

text \<open>A dictionary of three groups, of which the first lies above the second.\<close>

definition demo_groups :: "(string \<times> nat list) list" where
  "demo_groups = [(''a'', [1]), (''a>b'', [2, 3]), (''c'', [4])]"

text \<open>The tree cut in the specification's words: a selector is deleted when it is a
  prefix of the selector kept before it.\<close>

fun retained_walk :: "string option \<Rightarrow> string list \<Rightarrow> string list" where
  "retained_walk last_kept [] = []"
| "retained_walk last_kept (sel # rest) =
     (if hit last_kept sel then retained_walk last_kept rest
      else sel # retained_walk (Some sel) rest)"

text \<open>A \<open>body\<close> holding a list of two rows with one link each, the two rows and the two
  links.\<close>

definition demo_list :: element where
  "demo_list =
     Element ''body'' [] []
       [Elem ''ul'' [] []
          [Elem ''li'' [] [] [Elem ''a'' [(''href'', ''/p/1'')] ''Item 1'' [] []] [],
           Elem ''li'' [] [] [Elem ''a'' [(''href'', ''/p/2'')] ''Item 2'' [] []] []] []]
       [] []"

definition demo_li1 :: element where
  "demo_li1 =
     Element ''li'' [] [] [Elem ''a'' [(''href'', ''/p/1'')] ''Item 1'' [] []] []
       [Frame ''ul'' [] [] [] []
          [Elem ''li'' [] [] [Elem ''a'' [(''href'', ''/p/2'')] ''Item 2'' [] []] []],
        Frame ''body'' [] [] [] [] []]"

definition demo_li2 :: element where
  "demo_li2 =
     Element ''li'' [] [] [Elem ''a'' [(''href'', ''/p/2'')] ''Item 2'' [] []] []
       [Frame ''ul'' [] [] []
          [Elem ''li'' [] [] [Elem ''a'' [(''href'', ''/p/1'')] ''Item 1'' [] []] []] [],
        Frame ''body'' [] [] [] [] []]"

definition demo_a1 :: element where
  "demo_a1 =
     Element ''a'' [(''href'', ''/p/1'')] ''Item 1'' [] [] (Frame ''li'' [] [] [] [] [] # ctx demo_li1)"

definition demo_a2 :: element where
  "demo_a2 =
     Element ''a'' [(''href'', ''/p/2'')] ''Item 2'' [] [] (Frame ''li'' [] [] [] [] [] # ctx demo_li2)"

text \<open>Markup without \<open>html\<close>: the list is what the parser returns, lxml has put it into a
  \<open>body\<close> inside an \<open>html\<close> element.\<close>

definition demo_fragment_list :: element where
  "demo_fragment_list =
     Element ''ul'' [] [] [Elem ''li'' [] ''x'' [] [], Elem ''li'' [] ''y'' [] []] []
       [Frame ''body'' [] [] [] [] [], Frame ''html'' [] [] [] [] []]"

text \<open>A whole document: the parser returns the \<open>html\<close> element, which holds the \<open>body\<close> of
  two paragraphs.\<close>

definition demo_html :: element where
  "demo_html =
     Element ''html'' [] []
       [Elem ''body'' [] [] [Elem ''p'' [] ''x'' [] [], Elem ''p'' [] ''y'' [] []] []] [] []"

definition demo_html_p1 :: element where
  "demo_html_p1 = Element ''p'' [] ''x'' [] []
     [Frame ''body'' [] [] [] [] [Elem ''p'' [] ''y'' [] []], Frame ''html'' [] [] [] [] []]"

definition demo_html_p2 :: element where
  "demo_html_p2 = Element ''p'' [] ''y'' [] []
     [Frame ''body'' [] [] [] [Elem ''p'' [] ''x'' [] []] [], Frame ''html'' [] [] [] [] []]"

text \<open>Collaborators whose link text length features are 0, as for elements without any
  link, and an extractor that accepts such lengths.\<close>

definition linkless_collaborators :: collaborators where
  "linkless_collaborators =
     demo_collaborators
       \<lparr>linked_descendants_group_text_min_length := (\<lambda>e. 0),
        linked_descendants_group_text_max_length := (\<lambda>e. 0)\<rparr>"

definition lenient_extractor :: extractor where
  "lenient_extractor = ListExtractor 2 0 35 0.8"

section \<open>Properties of utils/element.py\<close>

lemma length_located: "length (located mk up l ns r) = length ns"
  by (induction ns arbitrary: l) auto

lemma length_itersiblings_preceding:
  "length (itersiblings e True) = length (preceding_siblings e)"
  by (auto simp: itersiblings_def preceding_siblings_def length_located
           split: list.splits frame.splits)

lemma alias_loop_map: "alias_loop items acc = acc @ map render_attribute items"
  by (induction items arbitrary: acc) (auto simp: render_attribute_def Let_def)

lemma str_nat_small: "n < 10 \<Longrightarrow> str_nat n = [digit_char n]"
  by (subst str_nat.simps) simp

text \<open>
  C9. For an element, \<open>alias\<close> is the tag, followed by every attribute in order as
  \<open>[name="value"]\<close>, or \<open>[name]\<close> when the value is empty, the whitespace removed from
  name and value (the emptiness is that of the value without its whitespace), followed by
  \<open>::nth-child(n)\<close> with \<open>n\<close> one more than the number of preceding sibling nodes, left out
  when \<open>n = 1\<close>; for an absent element it is the empty string.
\<close>

theorem alias_of_spec: "alias_of x = alias_spec x"
  by (cases x) (auto simp: alias_spec_def alias_loop_map length_itersiblings_preceding Let_def)

theorem alias_of_spec_witness:
  "alias_of (Some demo_item) = alias_spec (Some demo_item)
   \<and> alias_spec (Some demo_item)
       = ''li[class='' @ [CHR 0x22] @ ''ab'' @ [CHR 0x22] @ ''][datax]::nth-child(3)''
   \<and> alias_of None = []"
  using alias_of_spec [of "Some demo_item"]
  by (simp add: alias_spec_def demo_item_def preceding_siblings_def render_attribute_def
        re_sub_ws_def is_space_def str_nat_small digit_char_def Let_def)

text \<open>
  C3. On an absent element \<open>text\<close> returns the integer 0, not the empty string, so
  \<open>number_of_char\<close> fails with a \<open>TypeError\<close> on taking its length; \<open>density_of_text\<close> and
  \<open>density_of_punctuation\<close> read an attribute of the absent element and fail with an
  \<open>AttributeError\<close>.
\<close>

theorem absent_element_failures:
  "text_of None = PyInt 0 \<and> text_of None \<noteq> PyStr []
   \<and> number_of_char None = Inl TypeError
   \<and> density_of_text None = Inl AttributeError
   \<and> density_of_punctuation None = Inl AttributeError"
  by (simp add: number_of_char_def)

text \<open>The accessors that do test for the absent element return their zero value.\<close>

lemma absent_element_zero_values:
  "selector st None = Inr [] \<and> path_raw None = [] \<and> path None = [] \<and> alias_of None = []
   \<and> parent None = None \<and> a_descendants None = []
   \<and> children None including = [] \<and> siblings None including = []
   \<and> descendants None including = [] \<and> children_of_head None = Inr []
   \<and> descendants_of_body None = []
   \<and> number_of_a_char None = 0 \<and> number_of_p_descendants None = 0
   \<and> number_of_a_descendants None = 0 \<and> number_of_punctuation None = 0
   \<and> number_of_descendants None = 0 \<and> number_of_siblings None = 0
   \<and> number_of_children None = 0 \<and> similarity_with_siblings sim None = Inr 0"
  by (simp add: similarity_with_siblings_def)

subsection \<open>Descendants and ancestors\<close>

lemma in_html_elements [simp]: "d \<in> set (html_elements xs) \<longleftrightarrow> HtmlElement d \<in> set xs"
  by (induction xs rule: html_elements.induct) auto

lemma climb_shorter: "p \<in> set (climb n fs) \<Longrightarrow> length (ctx p) < length fs"
  by (induction n fs rule: climb.induct) auto

lemma not_own_ancestor: "e \<notin> set (ancestors e)"
  using climb_shorter [of e "node_of e" "ctx e"] by (auto simp: ancestors_def)

lemma climb_closed:
  "p \<in> set (climb n fs) \<Longrightarrow> set (climb (node_of p) (ctx p)) \<subseteq> set (climb n fs)"
  by (induction n fs rule: climb.induct) (auto simp: node_of_def)

lemma ancestors_trans: "p \<in> set (ancestors d) \<Longrightarrow> q \<in> set (ancestors p) \<Longrightarrow> q \<in> set (ancestors d)"
  using climb_closed [of p "node_of d" "ctx d"] by (auto simp: ancestors_def)

lemma descend_sound:
  "HtmlElement d \<in> set (descend mk up l ns) \<Longrightarrow> mk = Frame g a x t
   \<Longrightarrow> Element g a x (rev l @ ns) t up \<in> set (ancestors d)"
proof (induction mk up l ns arbitrary: g a x t rule: descend.induct)
  case (1 mk up l)
  then show ?case by simp
next
  case (2 mk up l t' ns)
  then show ?case by simp
next
  case (3 mk up l g' a' x' ks t' ns)
  let ?c = "Element g' a' x' ks t' (mk l ns # up)"
  let ?p = "Element g a x (rev l @ Elem g' a' x' ks t' # ns) t up"
  have own: "?p \<in> set (ancestors ?c)"
    using 3 by (simp add: ancestors_def node_of_def)
  from "3.prems"(1) consider "d = ?c"
    | "HtmlElement d \<in> set (descend (Frame g' a' x' t') (mk l ns # up) [] ks)"
    | "HtmlElement d \<in> set (descend mk up (Elem g' a' x' ks t' # l) ns)"
    by auto
  then show ?case
  proof cases
    case 1
    then show ?thesis using own by simp
  next
    case 2
    then have "Element g' a' x' (rev [] @ ks) t' (mk l ns # up) \<in> set (ancestors d)"
      by (rule "3.IH"(1)) simp
    then have "?c \<in> set (ancestors d)" by simp
    then show ?thesis using own by (rule ancestors_trans)
  next
    case 3
    then have "Element g a x (rev (Elem g' a' x' ks t' # l) @ ns) t up \<in> set (ancestors d)"
      using "3.prems"(2) by (rule "3.IH"(2))
    then show ?thesis by simp
  qed
qed

lemma iterdescendants_sound:
  "HtmlElement d \<in> set (iterdescendants e) \<Longrightarrow> e \<in> set (ancestors d)"
  using descend_sound [of d "frame_of e" "ctx e" "[]" "kids e" "tag e" "attrib e" "etext e" "tail e"]
  by (cases e) (simp add: iterdescendants_def frame_of_def)

lemma descend_closed:
  "HtmlElement c \<in> set (descend mk up l ns)
   \<Longrightarrow> set (descend (frame_of c) (ctx c) [] (kids c)) \<subseteq> set (descend mk up l ns)"
  by (induction mk up l ns rule: descend.induct) (auto simp: frame_of_def)

lemma child_in_descend:
  "HtmlElement (Element g a x ks t (mk (rev xs @ l) r # up))
     \<in> set (descend mk up l (xs @ Elem g a x ks t # r))"
proof (induction xs arbitrary: l)
  case Nil
  then show ?case by simp
next
  case (Cons n xs)
  from Cons [of "n # l"] show ?case by (cases n) auto
qed

lemma child_in_parent:
  assumes "getparent d = Some p"
  shows "HtmlElement d \<in> set (iterdescendants p)"
proof -
  obtain g a x ks t fs where d: "d = Element g a x ks t fs" by (cases d)
  with assms obtain g' a' x' t' l r up where
    fs: "fs = Frame g' a' x' t' l r # up"
    and p: "p = Element g' a' x' (rev l @ Elem g a x ks t # r) t' up"
    by (auto simp: getparent_def node_of_def split: list.splits frame.splits)
  from child_in_descend [of g a x ks t "Frame g' a' x' t'" "rev l" "[]" r up]
  show ?thesis by (simp add: d fs p iterdescendants_def frame_of_def)
qed

lemma climb_complete:
  "e \<in> set (climb (node_of d) (ctx d)) \<Longrightarrow> HtmlElement d \<in> set (iterdescendants e)"
proof (induction "ctx d" arbitrary: d)
  case Nil
  then show ?case by simp
next
  case (Cons f up)
  obtain g a x t l r where f: "f = Frame g a x t l r" by (cases f)
  let ?p = "Element g a x (rev l @ node_of d # r) t up"
  have par: "getparent d = Some ?p"
    using Cons.hyps(2) [symmetric] by (simp add: getparent_def f)
  have dp: "HtmlElement d \<in> set (iterdescendants ?p)" using par by (rule child_in_parent)
  from Cons.prems Cons.hyps(2) [symmetric]
  consider "e = ?p" | "e \<in> set (climb (node_of ?p) (ctx ?p))"
    by (auto simp: f node_of_def)
  then show ?case
  proof cases
    case 1
    then show ?thesis using dp by simp
  next
    case 2
    have "HtmlElement ?p \<in> set (iterdescendants e)"
      by (rule Cons.hyps(1)) (use 2 in simp_all)
    then have "set (iterdescendants ?p) \<subseteq> set (iterdescendants e)"
      unfolding iterdescendants_def by (rule descend_closed)
    then show ?thesis using dp by auto
  qed
qed

lemma iterdescendants_iff:
  "HtmlElement d \<in> set (iterdescendants e) \<longleftrightarrow> e \<in> set (ancestors d)"
  using iterdescendants_sound climb_complete by (auto simp: ancestors_def)

section \<open>Properties of extractors/list.py\<close>

text \<open>
  C8. For empty or absent markup \<open>extract_list\<close> returns the empty result and raises
  nothing: \<open>html2element\<close> yields the absent element without calling the parser, and the
  entry point returns at once.
\<close>

theorem extract_list_empty_input:
  "extract_list c (Some []) = Inr [] \<and> extract_list c None = Inr []
   \<and> html2element (fromstring c) (Some []) = Inr None
   \<and> html2element (fromstring c) None = Inr None"
  by (simp add: extract_list_def extract_html_def html2element_def truthy_def)

theorem extract_list_empty_input_witness:
  "extract_list demo_collaborators (Some []) = Inr []
   \<and> extract_list demo_collaborators None = Inr []"
  using extract_list_empty_input [of demo_collaborators] by simp

subsection \<open>The class of the ancestors and the selector\<close>

lemma ancestors_getparent:
  "ancestors d = (case getparent d of None \<Rightarrow> [] | Some p \<Rightarrow> p # ancestors p)"
  by (cases d) (auto simp: ancestors_def getparent_def node_of_def split: list.splits frame.splits)

lemma parent_store_same: "parent_store st x = st"
  by (simp add: parent_store_def isinstance_ModuleType_def split: option.splits)

lemma selector_step:
  "selector st (Some e) =
     (case getparent e of
        Some p \<Rightarrow>
          (case selector st (Some p) of
             Inl err \<Rightarrow> Inl err
           | Inr s \<Rightarrow> if e \<in> set st then Inr (s @ ''>'' @ alias_of (Some e))
                      else Inl AttributeError)
      | None \<Rightarrow> if e \<in> set st then Inr (alias_of (Some e)) else Inl AttributeError)"
  by (subst selector.simps(2))
     (simp add: parent_store_same read_alias_def split: option.splits sum.splits)

lemma selector_error: "selector st x = Inl err \<Longrightarrow> err = AttributeError"
proof (induction st x arbitrary: err rule: selector.induct)
  case (1 st)
  then show ?case by simp
next
  case (2 st e)
  show ?case
  proof (cases "getparent e")
    case None
    with "2.prems" show ?thesis
      by (simp add: selector_step [of st e] split: if_splits)
  next
    case (Some p)
    show ?thesis
    proof (cases "selector st (Some p)")
      case (Inl err')
      with "2.IH" [of p err'] Some have "err' = AttributeError"
        by (simp add: parent_store_same)
      with "2.prems" Some Inl show ?thesis
        by (simp add: selector_step [of st e])
    next
      case (Inr s)
      with "2.prems" Some show ?thesis
        by (simp add: selector_step [of st e] split: if_splits)
    qed
  qed
qed

lemma selector_ok_iff:
  "(\<exists>s. selector st (Some e) = Inr s) \<longleftrightarrow> e \<in> set st \<and> set (ancestors e) \<subseteq> set st"
proof (induction st "Some e" arbitrary: e rule: selector.induct)
  case (2 st e)
  show ?case
  proof (cases "getparent e")
    case None
    then show ?thesis
      by (simp add: selector_step [of st e] ancestors_getparent [of e])
  next
    case (Some p)
    from 2 [of p] Some
    have ih: "(\<exists>s. selector st (Some p) = Inr s) \<longleftrightarrow> p \<in> set st \<and> set (ancestors p) \<subseteq> set st"
      by (simp add: parent_store_same)
    show ?thesis
    proof (cases "selector st (Some p)")
      case (Inl err)
      with ih Some show ?thesis
        by (auto simp: selector_step [of st e] ancestors_getparent [of e])
    next
      case (Inr s)
      with ih Some show ?thesis
        by (auto simp: selector_step [of st e] ancestors_getparent [of e])
    qed
  qed
qed

lemma parent_selector_error: "parent_selector st d = Inl err \<Longrightarrow> err = AttributeError"
  unfolding parent_selector_def by (rule selector_error)

lemma parent_selector_ok_iff:
  "(\<exists>k. parent_selector st d = Inr k) \<longleftrightarrow> set (ancestors d) \<subseteq> set st"
proof (cases "getparent d")
  case None
  then show ?thesis
    by (simp add: parent_selector_def ancestors_getparent [of d])
next
  case (Some p)
  with selector_ok_iff [of st p] show ?thesis
    by (simp add: parent_selector_def parent_store_same ancestors_getparent [of d])
qed

text \<open>The ancestors of an element form a chain: those met before an ancestor lie below
  it.\<close>

lemma climb_chain:
  "p \<in> set (climb n fs) \<Longrightarrow>
   \<exists>pre. climb n fs = pre @ p # climb (node_of p) (ctx p)
     \<and> (\<forall>q\<in>set pre. p \<in> set (climb (node_of q) (ctx q)))"
proof (induction n fs rule: climb.induct)
  case (1 n)
  then show ?case by simp
next
  case (2 n g a x t l r up)
  let ?P = "Element g a x (rev l @ n # r) t up"
  let ?N = "Elem g a x (rev l @ n # r) t"
  have nP: "node_of ?P = ?N" and cP: "ctx ?P = up" by (simp_all add: node_of_def)
  show ?case
  proof (cases "p = ?P")
    case True
    then show ?thesis by (intro exI [of _ "[]"]) (simp add: node_of_def)
  next
    case False
    with "2.prems" have in_up: "p \<in> set (climb ?N up)" by simp
    from "2.IH" [OF this] obtain pre where
      d: "climb ?N up = pre @ p # climb (node_of p) (ctx p)"
      and b: "\<forall>q\<in>set pre. p \<in> set (climb (node_of q) (ctx q))" by blast
    have "climb n (Frame g a x t l r # up) = (?P # pre) @ p # climb (node_of p) (ctx p)"
      by (simp add: d)
    moreover have "\<forall>q\<in>set (?P # pre). p \<in> set (climb (node_of q) (ctx q))"
      using b in_up by (simp add: node_of_def)
    ultimately show ?thesis by blast
  qed
qed

lemma ancestors_chain:
  assumes "b \<in> set (ancestors d)"
  shows "\<exists>pre. ancestors d = pre @ b # ancestors b \<and> (\<forall>q\<in>set pre. b \<in> set (ancestors q))"
  using climb_chain [of b "node_of d" "ctx d"] assms by (simp add: ancestors_def)

lemma below_body_ancestors:
  assumes "HtmlElement d \<in> set (iterdescendants b)"
    and "b \<in> set st" and "set (html_elements (iterdescendants b)) \<subseteq> set st"
  shows "set (ancestors d) \<subseteq> set st \<longleftrightarrow> set (ancestors b) \<subseteq> set st"
proof -
  from assms(1) have "b \<in> set (ancestors d)" by (simp add: iterdescendants_iff)
  from ancestors_chain [OF this] obtain pre where
    d: "ancestors d = pre @ b # ancestors b" and p: "\<forall>q\<in>set pre. b \<in> set (ancestors q)"
    by blast
  have "set pre \<subseteq> set st"
  proof
    fix q assume "q \<in> set pre"
    with p have "b \<in> set (ancestors q)" by simp
    then have "HtmlElement q \<in> set (iterdescendants b)" by (simp add: iterdescendants_iff)
    with assms(3) show "q \<in> set st" by auto
  qed
  with assms(2) show ?thesis by (auto simp: d)
qed

text \<open>The parent selectors of the descendants of \<open>body\<close> can be computed for all of them
  or for none.\<close>

lemma parent_selector_together:
  assumes "d \<in> set (descendants_of_body element)"
    and "d' \<in> set (descendants_of_body element)"
    and "parent_selector (element_objects element) d = Inr k"
  shows "\<exists>k'. parent_selector (element_objects element) d' = Inr k'"
proof -
  let ?st = "element_objects element"
  from assms(1) obtain e where e: "element = Some e" by (cases element) auto
  from assms(1) e obtain b rest where b: "xpath_anywhere ''body'' e = b # rest"
    by (cases "xpath_anywhere ''body'' e") auto
  have ds: "descendants_of_body element = b # html_elements (iterdescendants b)"
    by (simp add: e b)
  have bst: "b \<in> set ?st" and sub: "set (html_elements (iterdescendants b)) \<subseteq> set ?st"
    by (auto simp: element_objects_def ds)
  have key: "set (ancestors x) \<subseteq> set ?st \<longleftrightarrow> set (ancestors b) \<subseteq> set ?st"
    if "x \<in> set (descendants_of_body element)" for x
  proof (cases "x = b")
    case True
    then show ?thesis by simp
  next
    case False
    with that have "HtmlElement x \<in> set (iterdescendants b)" by (simp add: ds)
    then show ?thesis using bst sub by (rule below_body_ancestors)
  qed
  from assms(3) have "set (ancestors d) \<subseteq> set ?st"
    using parent_selector_ok_iff [of ?st d] by blast
  then have "set (ancestors d') \<subseteq> set ?st"
    using key [OF assms(1)] key [OF assms(2)] by simp
  then show ?thesis using parent_selector_ok_iff [of ?st d'] by blast
qed

subsection \<open>The cluster builder\<close>

lemma sibling_scores_elements:
  "sibling_scores sim (Some e) sibs acc
     = Inr (acc @ map (\<lambda>s. sim (alias_of (Some e)) (alias_of (Some s))) sibs)"
  by (induction sibs arbitrary: acc) auto

lemma similarity_with_siblings_stored:
  "similarity_with_siblings (similarity c) (Some e) = Inr (stored_similarity c e)"
  by (simp add: stored_similarity_def similarity_with_siblings_def sibling_scores_elements)

lemma group_of_dict_append:
  "group_of (dict_append d k v) k' = group_of d k' @ (if k = k' then [v] else [])"
  by (induction d k v rule: dict_append.induct) (auto simp: group_of_def)

lemma keys_dict_append:
  "map fst (dict_append d k v) = (if k \<in> set (map fst d) then map fst d else map fst d @ [k])"
  by (induction d k v rule: dict_append.induct) auto

lemma distinct_dict_append:
  "distinct (map fst d) \<Longrightarrow> distinct (map fst (dict_append d k v))"
  by (simp add: keys_dict_append)

lemma set_survivors_dict_append:
  "set (survivors (dict_append d k v)) = insert v (set (survivors d))"
  by (induction d k v rule: dict_append.induct) (auto simp: survivors_def)

lemma length_survivors_dict_append:
  "length (survivors (dict_append d k v)) = Suc (length (survivors d))"
  by (induction d k v rule: dict_append.induct) (auto simp: survivors_def)

lemma build_loop_step:
  "build_loop c self st (d # ds) tree =
     (if is_candidate c self d
      then case parent_selector st d of
             Inl err \<Rightarrow> Inl err
           | Inr key \<Rightarrow> build_loop c self st ds (dict_append tree key d)
      else build_loop c self st ds tree)"
  by (auto simp: is_candidate_def similarity_with_siblings_stored)

lemma build_loop_result:
  assumes "\<forall>d\<in>set ds. is_candidate c self d \<longrightarrow> (\<exists>k. parent_selector st d = Inr k)"
  shows "\<exists>tree'. build_loop c self st ds tree = Inr tree'
     \<and> (\<forall>k. group_of tree' k
            = group_of tree k
              @ filter (\<lambda>d. is_candidate c self d \<and> parent_selector st d = Inr k) ds)
     \<and> set (survivors tree') = set (survivors tree) \<union> set (filter (is_candidate c self) ds)
     \<and> length (survivors tree')
         = length (survivors tree) + length (filter (is_candidate c self) ds)
     \<and> (distinct (map fst tree) \<longrightarrow> distinct (map fst tree'))
     \<and> (tree = [] \<and> filter (is_candidate c self) ds = [] \<longrightarrow> tree' = [])"
  using assms
proof (induction ds arbitrary: tree)
  case Nil
  then show ?case by simp
next
  case (Cons d ds)
  from Cons.prems have rest: "\<forall>d\<in>set ds. is_candidate c self d \<longrightarrow> (\<exists>k. parent_selector st d = Inr k)"
    by simp
  show ?case
  proof (cases "is_candidate c self d")
    case True
    with Cons.prems obtain key where key: "parent_selector st d = Inr key" by auto
    from Cons.IH [OF rest, of "dict_append tree key d"] True key show ?thesis
      by (simp only: build_loop_step)
         (auto simp: group_of_dict_append set_survivors_dict_append
            length_survivors_dict_append distinct_dict_append)
  next
    case False
    from Cons.IH [OF rest, of tree] False show ?thesis
      by (simp only: build_loop_step) auto
  qed
qed

lemma build_loop_fails:
  assumes "d \<in> set ds" and "is_candidate c self d" and "parent_selector st d = Inl err"
  shows "build_loop c self st ds tree = Inl AttributeError"
  using assms(1)
proof (induction ds arbitrary: tree)
  case Nil
  then show ?case by simp
next
  case (Cons x ds)
  show ?case
  proof (cases "is_candidate c self x")
    case False
    with Cons assms(2) have "d \<in> set ds" by auto
    with Cons.IH False show ?thesis by (simp only: build_loop_step) simp
  next
    case True
    show ?thesis
    proof (cases "parent_selector st x")
      case (Inl err')
      then have "err' = AttributeError" by (rule parent_selector_error)
      with True Inl show ?thesis by (simp only: build_loop_step) simp
    next
      case (Inr key)
      with Cons.prems assms(3) have "d \<in> set ds" by auto
      with Cons.IH True Inr show ?thesis by (simp only: build_loop_step) simp
    qed
  qed
qed

lemma descendants_tree_result:
  assumes "\<forall>d\<in>set (descendants_of_body element).
             is_candidate c self d \<longrightarrow> (\<exists>k. parent_selector (element_objects element) d = Inr k)"
  shows "\<exists>tree. descendants_tree c self element = Inr tree
     \<and> (\<forall>k. group_of tree k
            = filter (\<lambda>d. is_candidate c self d
                         \<and> parent_selector (element_objects element) d = Inr k)
                (descendants_of_body element))
     \<and> set (survivors tree) = set (filter (is_candidate c self) (descendants_of_body element))
     \<and> length (survivors tree) = length (filter (is_candidate c self) (descendants_of_body element))
     \<and> distinct (map fst tree)
     \<and> (filter (is_candidate c self) (descendants_of_body element) = [] \<longrightarrow> tree = [])"
  using build_loop_result [OF assms, of "[]"]
  by (auto simp: descendants_tree_def group_of_def survivors_def)

lemma descendants_tree_fails:
  assumes "d \<in> set (descendants_of_body element)" and "is_candidate c self d"
    and "parent_selector (element_objects element) d = Inl err"
  shows "descendants_tree c self element = Inl AttributeError"
  unfolding descendants_tree_def using assms by (rule build_loop_fails)




lemma demo_fragment_list_fails:
  "descendants_tree demo_collaborators demo_extractor (Some demo_fragment_list)
     = Inl AttributeError"
  by (simp add: descendants_tree_def element_objects_def xpath_anywhere_def docroot_def
        ancestors_def iterdescendants_def frame_of_def demo_fragment_list_def
        demo_extractor_def ListExtractor_def demo_collaborators_def itersiblings_def node_of_def
        similarity_with_siblings_def mean_def parent_selector_def getparent_def
        selector.simps(2) parent_store_same read_alias_def
        length_itersiblings_preceding preceding_siblings_def str_nat_small digit_char_def)

text \<open>In a whole document the root is of class \<open>Element\<close>, and the loop returns.\<close>

lemma demo_html_tree:
  "descendants_tree demo_collaborators demo_extractor (Some demo_html)
     = Inr [(''html>body'', [demo_html_p1, demo_html_p2])]"
  by (simp add: descendants_tree_def element_objects_def xpath_anywhere_def docroot_def
        ancestors_def iterdescendants_def frame_of_def demo_html_def demo_html_p1_def
        demo_html_p2_def
        demo_extractor_def ListExtractor_def demo_collaborators_def itersiblings_def node_of_def
        similarity_with_siblings_def mean_def parent_selector_def getparent_def
        selector.simps(2) parent_store_same read_alias_def
        length_itersiblings_preceding preceding_siblings_def str_nat_small digit_char_def)

lemma length_filter_mono:
  "(\<And>x. P x \<Longrightarrow> Q x) \<Longrightarrow> length (filter P xs) \<le> length (filter Q xs)"
  by (induction xs) auto


lemma demo_p1_selector: "parent_selector (element_objects (Some demo_body)) demo_p1 = Inr ''body''"
  by (simp add: element_objects_def xpath_anywhere_def docroot_def
        ancestors_def iterdescendants_def frame_of_def demo_body_def demo_p1_def
        itersiblings_def node_of_def parent_selector_def getparent_def
        selector.simps(2) parent_store_same read_alias_def)


text \<open>
  C7. With the other three numbers fixed, the descendants that survive the filter under
  the higher of two similarity thresholds are among those that survive under the lower
  one, and they are not more.
\<close>

theorem threshold_monotone:
  assumes "similarity_threshold s1 \<le> similarity_threshold s2"
    and "min_number s1 = min_number s2"
    and "min_length s1 = min_length s2"
    and "max_length s1 = max_length s2"
  shows "set (surviving c s2 element) \<subseteq> set (surviving c s1 element)
         \<and> length (surviving c s2 element) \<le> length (surviving c s1 element)"
proof -
  let ?ds = "descendants_of_body element"
  let ?st = "element_objects element"
  have imp: "is_candidate c s2 d \<Longrightarrow> is_candidate c s1 d" for d
    using assms by (auto simp: is_candidate_def)
  show ?thesis
  proof (cases "\<forall>d\<in>set ?ds. is_candidate c s1 d \<longrightarrow> (\<exists>k. parent_selector ?st d = Inr k)")
    case ok1: True
    with imp have ok2: "\<forall>d\<in>set ?ds. is_candidate c s2 d \<longrightarrow> (\<exists>k. parent_selector ?st d = Inr k)"
      by blast
    from descendants_tree_result [OF ok1] obtain t1 where
      t1: "descendants_tree c s1 element = Inr t1"
      "set (survivors t1) = set (filter (is_candidate c s1) ?ds)"
      "length (survivors t1) = length (filter (is_candidate c s1) ?ds)"
      by blast
    from descendants_tree_result [OF ok2] obtain t2 where
      t2: "descendants_tree c s2 element = Inr t2"
      "set (survivors t2) = set (filter (is_candidate c s2) ?ds)"
      "length (survivors t2) = length (filter (is_candidate c s2) ?ds)"
      by blast
    have "set (survivors t2) \<subseteq> set (survivors t1)"
      using imp by (auto simp: t1 t2)
    moreover have "length (survivors t2) \<le> length (survivors t1)"
      unfolding t1 t2 by (rule length_filter_mono) (rule imp)
    ultimately show ?thesis by (simp add: surviving_def t1 t2)
  next
    case False
    then obtain d where d: "d \<in> set ?ds" "is_candidate c s1 d"
      and n: "\<not> (\<exists>k. parent_selector ?st d = Inr k)" by blast
    have "surviving c s2 element = []"
    proof (cases "\<exists>d'\<in>set ?ds. is_candidate c s2 d'")
      case True
      then obtain d' where d': "d' \<in> set ?ds" "is_candidate c s2 d'" by blast
      have "\<not> (\<exists>k. parent_selector ?st d' = Inr k)"
      proof
        assume "\<exists>k. parent_selector ?st d' = Inr k"
        then obtain k where "parent_selector ?st d' = Inr k" ..
        with d'(1) d(1) have "\<exists>k'. parent_selector ?st d = Inr k'"
          by (rule parent_selector_together)
        with n show False ..
      qed
      then obtain err where "parent_selector ?st d' = Inl err"
        by (cases "parent_selector ?st d'") auto
      with d' have "descendants_tree c s2 element = Inl AttributeError"
        by (rule descendants_tree_fails)
      then show ?thesis by (simp add: surviving_def)
    next
      case none: False
      then have ok2: "\<forall>d\<in>set ?ds. is_candidate c s2 d \<longrightarrow> (\<exists>k. parent_selector ?st d = Inr k)"
        by blast
      from none have "filter (is_candidate c s2) ?ds = []"
        by (auto simp: filter_empty_conv)
      with descendants_tree_result [OF ok2]
      have "descendants_tree c s2 element = Inr []" by auto
      then show ?thesis by (simp add: surviving_def survivors_def)
    qed
    then show ?thesis by simp
  qed
qed

theorem threshold_monotone_witness:
  "similarity_threshold (ListExtractor 2 8 35 0.5) \<le> similarity_threshold demo_extractor
   \<and> min_number (ListExtractor 2 8 35 0.5) = min_number demo_extractor
   \<and> min_length (ListExtractor 2 8 35 0.5) = min_length demo_extractor
   \<and> max_length (ListExtractor 2 8 35 0.5) = max_length demo_extractor
   \<and> set (surviving demo_collaborators demo_extractor (Some demo_body))
       \<subseteq> set (surviving demo_collaborators (ListExtractor 2 8 35 0.5) (Some demo_body))
   \<and> length (surviving demo_collaborators demo_extractor (Some demo_body))
       \<le> length (surviving demo_collaborators (ListExtractor 2 8 35 0.5) (Some demo_body))"
  using threshold_monotone [of "ListExtractor 2 8 35 0.5" demo_extractor demo_collaborators
      "Some demo_body"]
  by (simp add: demo_extractor_def ListExtractor_def)

subsection \<open>The assembler and the fatal conditions\<close>

lemma extract_loop_filter:
  "extract_loop best ds acc
     = acc @ map link_record
         (filter (\<lambda>d. tag_path d = best \<and> truthy (map_of (attrib d) ''href'')) ds)"
  by (induction ds arbitrary: acc) (auto simp: link_record_def)

lemma dict_append_nonempty: "dict_append d k v \<noteq> []"
  by (cases d) (auto split: if_splits)

lemma title_loop_total:
  "\<exists>probs. title_loop self ds acc = Inr probs \<and> (probs = [] \<longleftrightarrow> ds = [] \<and> acc = [])"
proof (induction ds arbitrary: acc)
  case Nil
  then show ?case by simp
next
  case (Cons d ds)
  obtain n where n: "len (text_of (Some d)) = Inr n" by simp
  from Cons [of "dict_append acc (tag_path d) (probability_of_title_with_length self n)"]
  show ?case using n by (simp add: dict_append_nonempty)
qed

lemma best_tag_path_fails_iff:
  "(best_tag_path self cluster = Inl ValueError \<longleftrightarrow> cluster_links cluster = [])
   \<and> (cluster_links cluster \<noteq> [] \<longrightarrow> (\<exists>best. best_tag_path self cluster = Inr best))"
proof -
  from title_loop_total [of self "cluster_links cluster" "[]"] obtain probs where
    p: "title_loop self (cluster_links cluster) [] = Inr probs"
    and e: "probs = [] \<longleftrightarrow> cluster_links cluster = []" by auto
  show ?thesis
    by (cases probs) (use e in \<open>auto simp: best_tag_path_def p py_max_def\<close>)
qed

lemma extract_fails_iff:
  "extract_from_cluster self cluster = Inl ValueError \<longleftrightarrow> cluster_links cluster = []"
  using best_tag_path_fails_iff [of self cluster]
  by (auto simp: extract_from_cluster_def split: sum.splits)

text \<open>
  C1. Once the best tag path is chosen, the result is, in order, one record for every
  linked descendant of the cluster's elements whose tag path is the best one and whose
  \<open>href\<close> attribute is present and not empty; every other linked descendant is skipped.
  The record holds the computed text as title and the attribute as href, so no record has
  an empty href. The title is not tested: a link without text yields a record whose
  title is the empty string.
\<close>

theorem extract_from_cluster_records:
  assumes "best_tag_path self cluster = Inr best"
  shows "extract_from_cluster self cluster
           = Inr (map link_record
                   (filter (\<lambda>d. tag_path d = best \<and> truthy (map_of (attrib d) ''href''))
                      (cluster_links cluster)))
         \<and> list_all (\<lambda>r. href r \<noteq> [])
             (map link_record
                (filter (\<lambda>d. tag_path d = best \<and> truthy (map_of (attrib d) ''href''))
                   (cluster_links cluster)))"
  using assms
  by (auto simp: extract_from_cluster_def extract_loop_filter list_all_iff link_record_def
        truthy_def split: option.splits)

lemma demo_row_blank_links:
  "cluster_links [demo_row_blank]
     = [Element ''a'' [(''href'', ''/x'')] [] [] []
          [Frame ''li'' [] [] [] [] [], Frame ''ul'' [] [] [] [] []]]"
  by (simp add: cluster_links_def linked_descendants_def xpath_below_def iterdescendants_def
        frame_of_def demo_row_blank_def)

theorem empty_title_emitted:
  "extract_from_cluster list_extractor [demo_row_blank] = Inr [\<lparr>title = PyStr [], href = ''/x''\<rparr>]"
  by (simp add: extract_from_cluster_def best_tag_path_def demo_row_blank_links py_max_def
        np_mean_def tag_path_def getparent_def node_of_def truthy_def re_sub_ws_def text_node_def)

lemma demo_row_links:
  "cluster_links [demo_row]
     = [Element ''a'' [(''href'', ''/p/1'')] ''Item 1'' [] []
          [Frame ''li'' [] [] []
             [] [Elem ''a'' [] ''More'' [] [], Elem ''a'' [(''href'', [])] ''Top'' [] []],
           Frame ''ul'' [] [] [] [] []],
        Element ''a'' [] ''More'' [] []
          [Frame ''li'' [] [] []
             [Elem ''a'' [(''href'', ''/p/1'')] ''Item 1'' [] []]
             [Elem ''a'' [(''href'', [])] ''Top'' [] []],
           Frame ''ul'' [] [] [] [] []],
        Element ''a'' [(''href'', [])] ''Top'' [] []
          [Frame ''li'' [] [] []
             [Elem ''a'' [] ''More'' [] [], Elem ''a'' [(''href'', ''/p/1'')] ''Item 1'' [] []]
             [],
           Frame ''ul'' [] [] [] [] []]]"
  by (simp add: cluster_links_def linked_descendants_def xpath_below_def iterdescendants_def
        frame_of_def demo_row_def)

lemma demo_row_best: "best_tag_path list_extractor [demo_row] = Inr ''ul/li/a''"
  by (simp add: best_tag_path_def demo_row_links py_max_def np_mean_def tag_path_def
        getparent_def node_of_def)

theorem extract_from_cluster_records_witness:
  "best_tag_path list_extractor [demo_row] = Inr ''ul/li/a''
   \<and> extract_from_cluster list_extractor [demo_row]
       = Inr [\<lparr>title = PyStr ''Item1'', href = ''/p/1''\<rparr>]"
  using extract_from_cluster_records [of list_extractor "[demo_row]" "''ul/li/a''"]
  by (simp add: demo_row_best demo_row_links link_record_def tag_path_def getparent_def
        node_of_def truthy_def re_sub_ws_def text_node_def is_space_def)

lemma no_body_no_descendants:
  "xpath_anywhere ''body'' e = [] \<Longrightarrow> descendants_of_body (Some e) = []"
  by simp

lemma no_candidate_no_cluster:
  assumes "cluster_dict c [] = []"
    and "filter (is_candidate c self) (descendants_of_body element) = []"
  shows "build_clusters c self element = Inr []"
proof -
  from assms(2) have "\<forall>d\<in>set (descendants_of_body element).
      is_candidate c self d \<longrightarrow> (\<exists>k. parent_selector (element_objects element) d = Inr k)"
    by (auto simp: filter_empty_conv)
  from descendants_tree_result [OF this] assms(2)
  have "descendants_tree c self element = Inr []" by auto
  then show ?thesis using assms(1) by (simp add: build_clusters_def tree_cut_def)
qed

text \<open>
  C2. With a grouping utility that maps no groups to no clusters: choosing among no
  clusters raises the \<open>KeyError\<close> of the lookup \<open>clusters[0]\<close>; when the document has no
  \<open>body\<close>, or no descendant of \<open>body\<close> passes the filter, \<open>process\<close> ends with this
  \<open>KeyError\<close>; when the best cluster has no linked descendant, \<open>_extract_from_cluster\<close>
  and with it \<open>process\<close> end with the \<open>ValueError\<close> that \<open>max\<close> raises on an empty
  sequence. Both are builtin exceptions that nothing catches; in each case the call yields
  no result list.
\<close>

theorem fatal_conditions:
  assumes "cluster_dict c [] = []"
  shows "choose_best_cluster c [] = Inl KeyError
    \<and> (xpath_anywhere ''body'' (preprocess4list c element) = []
         \<or> filter (is_candidate c self) (descendants_of_body (Some (preprocess4list c element))) = []
        \<longrightarrow> process c self element = Inl KeyError)
    \<and> (build_clusters c self (Some (preprocess4list c element)) = Inr clusters
         \<and> choose_best_cluster c clusters = Inr best \<and> cluster_links best = []
        \<longrightarrow> process c self element = Inl ValueError)
    \<and> (cluster_links best = [] \<longrightarrow> extract_from_cluster self best = Inl ValueError)"
proof (intro conjI impI)
  show k: "choose_best_cluster c [] = Inl KeyError"
    by (simp add: choose_best_cluster_def)
  assume "xpath_anywhere ''body'' (preprocess4list c element) = []
         \<or> filter (is_candidate c self) (descendants_of_body (Some (preprocess4list c element))) = []"
  then have "filter (is_candidate c self) (descendants_of_body (Some (preprocess4list c element))) = []"
    by auto
  with assms have "build_clusters c self (Some (preprocess4list c element)) = Inr []"
    by (rule no_candidate_no_cluster)
  then show "process c self element = Inl KeyError"
    using k by (simp add: process_def)
next
  assume "build_clusters c self (Some (preprocess4list c element)) = Inr clusters
         \<and> choose_best_cluster c clusters = Inr best \<and> cluster_links best = []"
  then show "process c self element = Inl ValueError"
    using extract_fails_iff [of self best] by (simp add: process_def)
next
  assume "cluster_links best = []"
  then show "extract_from_cluster self best = Inl ValueError"
    by (simp add: extract_fails_iff)
qed

lemma linkless_tree:
  "descendants_tree linkless_collaborators lenient_extractor (Some demo_body)
     = Inr [(''body'', [demo_p1, demo_p2])]"
  by (simp add: descendants_tree_def element_objects_def xpath_anywhere_def docroot_def
        ancestors_def iterdescendants_def frame_of_def demo_body_def demo_p1_def demo_p2_def
        lenient_extractor_def ListExtractor_def linkless_collaborators_def
        demo_collaborators_def itersiblings_def node_of_def
        similarity_with_siblings_def mean_def parent_selector_def getparent_def
        selector.simps(2) parent_store_same read_alias_def
        length_itersiblings_preceding preceding_siblings_def str_nat_small digit_char_def)

lemma linkless_clusters:
  "build_clusters linkless_collaborators lenient_extractor (Some demo_body)
     = Inr [(0, [demo_p1, demo_p2])]"
  unfolding build_clusters_def linkless_tree
  by (simp add: tree_cut_def truthy_def linkless_collaborators_def demo_collaborators_def)

lemma linkless_best:
  "choose_best_cluster linkless_collaborators [(0, [demo_p1, demo_p2])] = Inr [demo_p1, demo_p2]"
  by (simp add: choose_best_cluster_def)

lemma demo_no_links: "cluster_links [demo_p1, demo_p2] = []"
  by (simp add: cluster_links_def linked_descendants_def xpath_below_def iterdescendants_def
        demo_p1_def demo_p2_def)

lemma demo_fragment_no_body: "xpath_anywhere ''body'' demo_fragment = []"
  by (simp add: xpath_anywhere_def docroot_def ancestors_def iterdescendants_def
        demo_fragment_def)

theorem fatal_conditions_witness:
  "cluster_dict demo_collaborators [] = []
   \<and> xpath_anywhere ''body'' (preprocess4list demo_collaborators demo_fragment) = []
   \<and> process demo_collaborators list_extractor demo_fragment = Inl KeyError
   \<and> cluster_dict linkless_collaborators [] = []
   \<and> build_clusters linkless_collaborators lenient_extractor
        (Some (preprocess4list linkless_collaborators demo_body))
       = Inr [(0, [demo_p1, demo_p2])]
   \<and> choose_best_cluster linkless_collaborators [(0, [demo_p1, demo_p2])]
       = Inr [demo_p1, demo_p2]
   \<and> cluster_links [demo_p1, demo_p2] = []
   \<and> process linkless_collaborators lenient_extractor demo_body = Inl ValueError
   \<and> extract_from_cluster lenient_extractor [demo_p1, demo_p2] = Inl ValueError"
proof -
  have c: "cluster_dict demo_collaborators [] = []"
    by (simp add: demo_collaborators_def)
  have c': "cluster_dict linkless_collaborators [] = []"
    by (simp add: linkless_collaborators_def demo_collaborators_def)
  have p: "preprocess4list demo_collaborators = (\<lambda>e. e)"
    by (simp add: demo_collaborators_def)
  have p': "preprocess4list linkless_collaborators = (\<lambda>e. e)"
    by (simp add: linkless_collaborators_def demo_collaborators_def)
  have b: "xpath_anywhere ''body'' (preprocess4list demo_collaborators demo_fragment) = []"
    by (simp add: p demo_fragment_no_body)
  from fatal_conditions [OF c, of demo_fragment list_extractor] b
  have 1: "process demo_collaborators list_extractor demo_fragment = Inl KeyError"
    by simp
  from fatal_conditions [OF c', of demo_body lenient_extractor "[(0, [demo_p1, demo_p2])]"
      "[demo_p1, demo_p2]"]
  have 2: "process linkless_collaborators lenient_extractor demo_body = Inl ValueError"
    and 3: "extract_from_cluster lenient_extractor [demo_p1, demo_p2] = Inl ValueError"
    by (simp_all add: p' linkless_clusters linkless_best demo_no_links)
  show ?thesis
    using c c' b 1 2 3 by (simp add: p' linkless_clusters linkless_best demo_no_links)
qed

text \<open>Without \<open>body\<close> there is no cluster, and the call ends with the \<open>KeyError\<close> of the
  dictionary lookup; a cluster without links ends the assembler with the \<open>ValueError\<close> of
  \<open>max\<close>.\<close>

theorem failure_is_builtin_exception:
  "process demo_collaborators list_extractor demo_fragment = Inl KeyError
   \<and> extract_from_cluster list_extractor [demo_p1, demo_p2] = Inl ValueError"
proof -
  have "filter (is_candidate demo_collaborators list_extractor)
          (descendants_of_body (Some demo_fragment)) = []"
    by (simp add: demo_fragment_no_body)
  moreover have "cluster_dict demo_collaborators [] = []"
    by (simp add: demo_collaborators_def)
  ultimately have "build_clusters demo_collaborators list_extractor (Some demo_fragment) = Inr []"
    by (intro no_candidate_no_cluster)
  moreover have "preprocess4list demo_collaborators demo_fragment = demo_fragment"
    by (simp add: demo_collaborators_def)
  ultimately have "process demo_collaborators list_extractor demo_fragment = Inl KeyError"
    by (simp add: process_def choose_best_cluster_def)
  moreover have "extract_from_cluster list_extractor [demo_p1, demo_p2] = Inl ValueError"
    by (simp add: extract_fails_iff demo_no_links)
  ultimately show ?thesis by simp
qed

text \<open>
  C10. The linked descendants of an element are exactly the elements of tag \<open>a\<close> that have
  the element among their proper ancestors; the element itself is never one of them. An
  element without linked descendants adds nothing to what a cluster yields, and a cluster
  of it alone yields no record: the extraction fails.
\<close>

theorem linked_descendants_proper:
  "(d \<in> set (a_descendants (Some e)) \<longleftrightarrow> tag d = ''a'' \<and> e \<in> set (ancestors d))
   \<and> e \<notin> set (a_descendants (Some e))
   \<and> (linked_descendants e = []
        \<longrightarrow> extract_from_cluster self (xs @ e # ys) = extract_from_cluster self (xs @ ys)
            \<and> extract_from_cluster self [e] = Inl ValueError)"
proof (intro conjI impI)
  show "d \<in> set (a_descendants (Some e)) \<longleftrightarrow> tag d = ''a'' \<and> e \<in> set (ancestors d)"
    by (auto simp: xpath_below_def iterdescendants_iff)
  show "e \<notin> set (a_descendants (Some e))"
    using not_own_ancestor [of e] by (auto simp: xpath_below_def iterdescendants_iff)
next
  assume n: "linked_descendants e = []"
  then have eq: "cluster_links (xs @ e # ys) = cluster_links (xs @ ys)"
    by (simp add: cluster_links_def)
  show "extract_from_cluster self (xs @ e # ys) = extract_from_cluster self (xs @ ys)"
    by (simp only: extract_from_cluster_def best_tag_path_def eq)
  from n have "cluster_links [e] = []" by (simp add: cluster_links_def)
  then show "extract_from_cluster self [e] = Inl ValueError"
    by (simp add: extract_fails_iff)
qed

theorem linked_descendants_proper_witness:
  "tag demo_anchor_row = ''a'' \<and> linked_descendants demo_anchor_row = []
   \<and> demo_anchor_row \<notin> set (a_descendants (Some demo_anchor_row))
   \<and> extract_from_cluster list_extractor [demo_anchor_row] = Inl ValueError
   \<and> extract_from_cluster list_extractor [demo_anchor_row, demo_row]
       = extract_from_cluster list_extractor [demo_row]"
proof -
  have n: "linked_descendants demo_anchor_row = []"
    by (simp add: linked_descendants_def xpath_below_def iterdescendants_def demo_anchor_row_def)
  have t: "tag demo_anchor_row = ''a''"
    by (simp add: demo_anchor_row_def)
  from linked_descendants_proper [of demo_anchor_row demo_anchor_row list_extractor "[]" "[demo_row]"]
  show ?thesis using n t by auto
qed

subsection \<open>The cluster scorer\<close>

lemma clusters_score_mean:
  "cluster \<noteq> [] \<Longrightarrow> clusters_score c cluster = Some (mean_similarity c cluster)"
  by (simp add: clusters_score_def np_mean_def mean_def mean_similarity_def)

lemma score_loop_unchanged:
  "list_all (\<lambda>item. snd item \<noteq> []) cs \<Longrightarrow> \<forall>x\<in>set cs. mean_similarity c (snd x) \<le> m
   \<Longrightarrow> score_loop c cs a (Some m) = (a, Some m)"
  by (induction cs arbitrary: a) (auto simp: clusters_score_mean)

lemma score_loop_first_max:
  "list_all (\<lambda>item. snd item \<noteq> []) cs \<Longrightarrow> \<not> (\<forall>x\<in>set cs. mean_similarity c (snd x) \<le> m)
   \<Longrightarrow> \<exists>pre cid cl post. cs = pre @ (cid, cl) # post
         \<and> score_loop c cs a (Some m) = (cid, Some (mean_similarity c cl))
         \<and> m < mean_similarity c cl
         \<and> (\<forall>x\<in>set pre. mean_similarity c (snd x) < mean_similarity c cl)
         \<and> (\<forall>x\<in>set post. mean_similarity c (snd x) \<le> mean_similarity c cl)"
proof (induction cs arbitrary: a m)
  case Nil
  then show ?case by simp
next
  case (Cons item cs)
  obtain k l where item: "item = (k, l)" by (cases item)
  let ?s = "mean_similarity c l"
  from Cons.prems(1) have ne: "l \<noteq> []" and rest: "list_all (\<lambda>item. snd item \<noteq> []) cs"
    by (auto simp: item)
  show ?case
  proof (cases "m < ?s")
    case True
    then have step: "score_loop c (item # cs) a (Some m) = score_loop c cs k (Some ?s)"
      by (simp add: item clusters_score_mean ne)
    show ?thesis
    proof (cases "\<forall>x\<in>set cs. mean_similarity c (snd x) \<le> ?s")
      case all: True
      with rest have "score_loop c cs k (Some ?s) = (k, Some ?s)"
        by (rule score_loop_unchanged)
      with step True all show ?thesis
        by (intro exI [of _ "[]"] exI [of _ k] exI [of _ l] exI [of _ cs]) (simp add: item)
    next
      case False
      from Cons.IH [OF rest False, of k] obtain pre cid cl post where
        d: "cs = pre @ (cid, cl) # post"
        and r: "score_loop c cs k (Some ?s) = (cid, Some (mean_similarity c cl))"
        and g: "?s < mean_similarity c cl"
        and p: "\<forall>x\<in>set pre. mean_similarity c (snd x) < mean_similarity c cl"
        and q: "\<forall>x\<in>set post. mean_similarity c (snd x) \<le> mean_similarity c cl"
        by blast
      from d r g p q step True show ?thesis
        by (intro exI [of _ "item # pre"] exI [of _ cid] exI [of _ cl] exI [of _ post])
           (simp add: item)
    qed
  next
    case le: False
    then have step: "score_loop c (item # cs) a (Some m) = score_loop c cs a (Some m)"
      by (simp add: item clusters_score_mean ne)
    from Cons.prems(2) le have "\<not> (\<forall>x\<in>set cs. mean_similarity c (snd x) \<le> m)"
      by (auto simp: item)
    from Cons.IH [OF rest this, of a] obtain pre cid cl post where
      d: "cs = pre @ (cid, cl) # post"
      and r: "score_loop c cs a (Some m) = (cid, Some (mean_similarity c cl))"
      and g: "m < mean_similarity c cl"
      and p: "\<forall>x\<in>set pre. mean_similarity c (snd x) < mean_similarity c cl"
      and q: "\<forall>x\<in>set post. mean_similarity c (snd x) \<le> mean_similarity c cl"
      by blast
    from d r g p q step le show ?thesis
      by (intro exI [of _ "item # pre"] exI [of _ cid] exI [of _ cl] exI [of _ post])
         (simp add: item)
  qed
qed

lemma sum_list_nonneg_real: "(\<And>x. x \<in> set xs \<Longrightarrow> 0 \<le> x) \<Longrightarrow> 0 \<le> sum_list (xs :: real list)"
  by (induction xs) auto

lemma stored_similarity_nonneg:
  assumes "\<forall>a b. 0 \<le> similarity c a b"
  shows "0 \<le> stored_similarity c e"
proof -
  have "0 \<le> sum_list (map (\<lambda>s. similarity c (alias_of (Some e)) (alias_of (Some s))) sibs)"
    for sibs
    by (rule sum_list_nonneg_real) (use assms in auto)
  then show ?thesis
    by (simp add: stored_similarity_def similarity_with_siblings_def sibling_scores_elements
          mean_def)
qed

lemma mean_similarity_nonneg:
  assumes "\<forall>a b. 0 \<le> similarity c a b"
  shows "0 \<le> mean_similarity c cluster"
proof -
  have "0 \<le> sum_list (map (stored_similarity c) cluster)"
    by (rule sum_list_nonneg_real) (use stored_similarity_nonneg [OF assms] in auto)
  then show ?thesis by (simp add: mean_similarity_def)
qed

lemma map_of_middle:
  "distinct (map fst (pre @ (k, v) # post)) \<Longrightarrow> map_of (pre @ (k, v) # post) k = Some v"
  by (induction pre) auto

text \<open>
  C5. For a non-empty dictionary of non-empty clusters and a similarity that is never
  negative: the score of every cluster is the arithmetic mean of the stored similarities
  of its members, and the cluster chosen is the first in iteration order whose score is
  maximal; every cluster before it scores strictly less, every cluster after it scores
  no more.
\<close>

theorem choose_best_cluster_first_max:
  assumes "clusters \<noteq> []"
    and "distinct (map fst clusters)"
    and "list_all (\<lambda>item. snd item \<noteq> []) clusters"
    and "\<forall>a b. 0 \<le> similarity c a b"
  shows "\<exists>pre cid best post. clusters = pre @ (cid, best) # post
           \<and> choose_best_cluster c clusters = Inr best
           \<and> (\<forall>x\<in>set clusters. clusters_score c (snd x) = Some (mean_similarity c (snd x)))
           \<and> (\<forall>x\<in>set pre. mean_similarity c (snd x) < mean_similarity c best)
           \<and> (\<forall>x\<in>set post. mean_similarity c (snd x) \<le> mean_similarity c best)"
proof -
  from assms(1) obtain x where "x \<in> set clusters" by (cases clusters) auto
  moreover have "- 1 < mean_similarity c (snd x)"
    using mean_similarity_nonneg [OF assms(4), of "snd x"] by simp
  ultimately have "\<not> (\<forall>x\<in>set clusters. mean_similarity c (snd x) \<le> - 1)"
    by force
  from score_loop_first_max [OF assms(3) this, of 0] obtain pre cid cl post where
    d: "clusters = pre @ (cid, cl) # post"
    and r: "score_loop c clusters 0 (Some (- 1)) = (cid, Some (mean_similarity c cl))"
    and p: "\<forall>x\<in>set pre. mean_similarity c (snd x) < mean_similarity c cl"
    and q: "\<forall>x\<in>set post. mean_similarity c (snd x) \<le> mean_similarity c cl"
    by blast
  from assms(2) have "map_of clusters cid = Some cl"
    unfolding d by (rule map_of_middle)
  then have "choose_best_cluster c clusters = Inr cl"
    by (simp add: choose_best_cluster_def r)
  moreover have "\<forall>x\<in>set clusters. clusters_score c (snd x) = Some (mean_similarity c (snd x))"
    using assms(3) by (auto simp: list_all_iff clusters_score_mean)
  ultimately show ?thesis using d p q by blast
qed

lemma demo_similarity_one:
  "stored_similarity demo_collaborators demo_p1 = 1
   \<and> stored_similarity demo_collaborators demo_p2 = 1"
  by (simp add: stored_similarity_def similarity_with_siblings_def mean_def
        demo_collaborators_def demo_p1_def demo_p2_def itersiblings_def node_of_def)

theorem choose_best_cluster_first_max_witness:
  "[(0, [demo_p1]), (1, [demo_p2])] \<noteq> []
   \<and> distinct (map fst [(0 :: int, [demo_p1]), (1, [demo_p2])])
   \<and> list_all (\<lambda>item. snd item \<noteq> []) [(0 :: int, [demo_p1]), (1, [demo_p2])]
   \<and> (\<forall>a b. 0 \<le> similarity demo_collaborators a b)
   \<and> mean_similarity demo_collaborators [demo_p1] = mean_similarity demo_collaborators [demo_p2]
   \<and> choose_best_cluster demo_collaborators [(0, [demo_p1]), (1, [demo_p2])] = Inr [demo_p1]"
proof -
  let ?cs = "[(0 :: int, [demo_p1]), (1, [demo_p2])]"
  have h: "\<forall>a b. 0 \<le> similarity demo_collaborators a b"
    by (simp add: demo_collaborators_def)
  have one: "mean_similarity demo_collaborators (snd x) = 1" if "x \<in> set ?cs" for x
    using that by (auto simp: mean_similarity_def demo_similarity_one)
  from choose_best_cluster_first_max [of ?cs demo_collaborators] h
  obtain pre cid best post where
    d: "?cs = pre @ (cid, best) # post"
    and r: "choose_best_cluster demo_collaborators ?cs = Inr best"
    and p: "\<forall>x\<in>set pre. mean_similarity demo_collaborators (snd x)
              < mean_similarity demo_collaborators best"
    by auto
  have "(cid, best) \<in> set (pre @ (cid, best) # post)" by simp
  then have "(cid, best) \<in> set ?cs" by (simp only: d [symmetric])
  then have b: "mean_similarity demo_collaborators best = 1"
    using one [of "(cid, best)"] by simp
  have "pre = []"
  proof (cases pre)
    case Nil
    then show ?thesis .
  next
    case (Cons x xs)
    then have "x \<in> set (pre @ (cid, best) # post)" by simp
    then have "x \<in> set ?cs" by (simp only: d [symmetric])
    then have "mean_similarity demo_collaborators (snd x) = 1" by (rule one)
    moreover have "mean_similarity demo_collaborators (snd x) < 1"
      using p b Cons by simp
    ultimately show ?thesis by simp
  qed
  with d have "best = [demo_p1]" by simp
  with r h show ?thesis by (simp add: mean_similarity_def demo_similarity_one)
qed

subsection \<open>The tree cut\<close>

lemma doomed_subset: "set (doomed lst ss) \<subseteq> set ss"
  by (induction ss arbitrary: lst) auto

lemma kept_filter:
  "distinct ss \<Longrightarrow> kept lst ss = filter (\<lambda>s. s \<notin> set (doomed lst ss)) ss"
proof (induction ss arbitrary: lst)
  case Nil
  then show ?case by simp
next
  case (Cons s ss)
  have "s \<notin> set (doomed (Some s) ss)"
    using doomed_subset [of "Some s" ss] Cons.prems by auto
  moreover have "filter (\<lambda>t. t \<notin> set (doomed (Some s) ss)) ss
      = filter (\<lambda>t. t \<noteq> s \<and> t \<notin> set (doomed (Some s) ss)) ss"
    using Cons.prems by (intro filter_cong) auto
  ultimately show ?case using Cons by simp
qed

lemma cut_loop_hit:
  "cut_loop lst (s # ss) d
     = (if hit lst s
        then case dict_del d s of Inl err \<Rightarrow> Inl err | Inr d' \<Rightarrow> cut_loop (Some s) ss d'
        else cut_loop (Some s) ss d)"
  by (simp add: hit_def)

lemma cut_loop_filter:
  "distinct ss \<Longrightarrow> set ss \<subseteq> fst ` set d
   \<Longrightarrow> cut_loop lst ss d = Inr (filter (\<lambda>item. fst item \<notin> set (doomed lst ss)) d)"
proof (induction ss arbitrary: lst d)
  case Nil
  then show ?case by simp
next
  case (Cons s ss)
  from Cons.prems(1) have dist: "distinct ss" and fresh: "s \<notin> set ss" by simp_all
  from Cons.prems(2) have here: "s \<in> fst ` set d" and sub: "set ss \<subseteq> fst ` set d"
    by simp_all
  show ?case
  proof (cases "hit lst s")
    case True
    let ?d = "filter (\<lambda>item. fst item \<noteq> s) d"
    have del: "dict_del d s = Inr ?d"
      using here by (simp only: dict_del_def if_True)
    have step: "cut_loop lst (s # ss) d = cut_loop (Some s) ss ?d"
      using True by (simp only: cut_loop_hit del if_True sum.case)
    have "set ss \<subseteq> fst ` set ?d"
    proof
      fix t
      assume t: "t \<in> set ss"
      with sub obtain item where "item \<in> set d" and "fst item = t" by auto
      moreover from t fresh have "t \<noteq> s" by auto
      ultimately have "item \<in> set ?d" by simp
      with \<open>fst item = t\<close> show "t \<in> fst ` set ?d" by force
    qed
    with dist have ih: "cut_loop (Some s) ss ?d
            = Inr (filter (\<lambda>item. fst item \<notin> set (doomed (Some s) ss)) ?d)"
      by (rule Cons.IH)
    have "doomed lst (s # ss) = s # doomed (Some s) ss"
      using True by simp
    then have eq: "filter (\<lambda>item. fst item \<notin> set (doomed lst (s # ss))) d
            = filter (\<lambda>item. fst item \<notin> set (doomed (Some s) ss)) ?d"
      by simp
    show ?thesis by (simp only: step ih eq)
  next
    case False
    have step: "cut_loop lst (s # ss) d = cut_loop (Some s) ss d"
      using False by (simp only: cut_loop_hit if_False)
    from dist sub have ih: "cut_loop (Some s) ss d
            = Inr (filter (\<lambda>item. fst item \<notin> set (doomed (Some s) ss)) d)"
      by (rule Cons.IH)
    have "doomed lst (s # ss) = doomed (Some s) ss"
      using False by simp
    then show ?thesis by (simp only: step ih)
  qed
qed

lemma prefix_le: "prefix xs ys \<Longrightarrow> xs \<le> (ys :: 'a :: linorder list)"
proof (induction xs arbitrary: ys)
  case Nil
  then show ?case by simp
next
  case (Cons x xs)
  then show ?case by (cases ys) auto
qed

text \<open>The invariant of the walk: the selector seen before is the one kept before, or a
  non-empty prefix of it.\<close>

lemma doomed_kept:
  assumes "sorted_wrt (>) ss"
    and "case lst of None \<Rightarrow> True | Some l \<Rightarrow> list_all (\<lambda>s. s < l) ss"
    and "lst = r \<or> (\<exists>l k. lst = Some l \<and> r = Some k \<and> l \<noteq> [] \<and> prefix l k)"
  shows "doomed r (kept lst ss) = []"
  using assms
proof (induction ss arbitrary: lst r)
  case Nil
  then show ?case by simp
next
  case (Cons s ss)
  have tail: "sorted_wrt (>) ss" using Cons.prems(1) by simp
  have below: "case Some s of None \<Rightarrow> True | Some l \<Rightarrow> list_all (\<lambda>t. t < l) ss"
    using Cons.prems(1) by (simp add: list_all_iff)
  show ?case
  proof (cases "hit lst s")
    case True
    then obtain l where l: "lst = Some l" and ne: "s \<noteq> []" and pre: "prefix s l"
      by (cases lst) (simp_all add: hit_def truthy_def)
    from Cons.prems(3) l obtain k where k: "r = Some k" and lk: "prefix l k"
      by (elim disjE exE conjE) simp_all
    from pre lk have "prefix s k" by (rule prefix_order.trans)
    with k ne have inv: "Some s = r
        \<or> (\<exists>l' k. Some s = Some l' \<and> r = Some k \<and> l' \<noteq> [] \<and> prefix l' k)"
      by simp
    have "doomed r (kept (Some s) ss) = []"
      using tail below inv by (rule Cons.IH)
    with True show ?thesis by simp
  next
    case False
    have "\<not> hit r s"
    proof
      assume h: "hit r s"
      then obtain k where k: "r = Some k" and ne: "s \<noteq> []" and sk: "prefix s k"
        by (cases r) (simp_all add: hit_def truthy_def)
      from Cons.prems(3) show False
      proof
        assume "lst = r"
        with h False show False by simp
      next
        assume "\<exists>l k. lst = Some l \<and> r = Some k \<and> l \<noteq> [] \<and> prefix l k"
        then obtain l where l: "lst = Some l" and lne: "l \<noteq> []" and lk: "prefix l k"
          using k by (elim exE conjE) simp
        have "s < l" using Cons.prems(2) by (simp add: l)
        from sk lk have "prefix s l \<or> prefix l s"
          by (rule prefix_same_cases)
        then have "prefix s l"
        proof
          assume "prefix s l"
          then show ?thesis .
        next
          assume "prefix l s"
          then have "l \<le> s" by (rule prefix_le)
          with \<open>s < l\<close> show ?thesis by simp
        qed
        then have "hit lst s" using l lne ne by (simp add: hit_def truthy_def)
        with False show False by simp
      qed
    qed
    moreover have "doomed (Some s) (kept (Some s) ss) = []"
      using tail below by (rule Cons.IH) (rule disjI1, rule refl)
    ultimately show ?thesis using False by simp
  qed
qed

lemma descending_keys:
  assumes "distinct (ks :: string list)"
  shows "sorted_wrt (>) (rev (sort ks)) \<and> distinct (rev (sort ks))
     \<and> set (rev (sort ks)) = set ks"
proof -
  have "sorted_wrt (<) (sort ks)"
    using assms by (simp add: strict_sorted_iff)
  then have "sorted_wrt (>) (rev (sort ks))"
    by (simp add: sorted_wrt_rev)
  then show ?thesis using assms by simp
qed

lemma tree_cut_filter:
  assumes "distinct (map fst d)"
  shows "tree_cut d
           = Inr (filter (\<lambda>item. fst item \<notin> set (doomed None (rev (sort (map fst d))))) d)"
proof -
  from descending_keys [OF assms]
  have "distinct (rev (sort (map fst d)))" and "set (rev (sort (map fst d))) \<subseteq> fst ` set d"
    by auto
  then show ?thesis unfolding tree_cut_def Let_def by (rule cut_loop_filter)
qed

text \<open>
  C6. On a dictionary (its keys are distinct) the tree cut never fails, and applied to its
  own result it changes nothing: the result is a fixed point.
\<close>

theorem tree_cut_idempotent:
  assumes "distinct (map fst m)"
  shows "\<exists>m'. tree_cut m = Inr m' \<and> tree_cut m' = Inr m' \<and> distinct (map fst m')"
proof -
  let ?L = "rev (sort (map fst m))"
  let ?P = "\<lambda>s. s \<notin> set (doomed None ?L)"
  let ?m' = "filter (\<lambda>item. ?P (fst item)) m"
  from descending_keys [OF assms] have desc: "sorted_wrt (>) ?L" and dist: "distinct ?L"
    by auto
  have first: "tree_cut m = Inr ?m'" using assms by (rule tree_cut_filter)
  have keys: "map fst ?m' = filter ?P (map fst m)"
    by (simp add: filter_map comp_def)
  have d': "distinct (map fst ?m')"
    unfolding keys using assms by simp
  have "filter ?P ?L = rev (filter ?P (sort (map fst m)))"
    by (simp only: rev_filter)
  also have "\<dots> = rev (sort (filter ?P (map fst m)))"
    by (simp only: filter_sort)
  finally have "rev (sort (map fst ?m')) = filter ?P ?L"
    by (simp only: keys)
  also have "\<dots> = kept None ?L"
    using dist by (simp add: kept_filter)
  finally have L': "rev (sort (map fst ?m')) = kept None ?L" .
  have none: "doomed None (kept None ?L) = []"
    using desc by (rule doomed_kept) simp_all
  have "tree_cut ?m'
          = Inr (filter (\<lambda>item. fst item \<notin> set (doomed None (rev (sort (map fst ?m'))))) ?m')"
    using d' by (rule tree_cut_filter)
  also have "\<dots> = Inr (filter (\<lambda>item. fst item \<notin> set (doomed None (kept None ?L))) ?m')"
    by (simp only: L')
  also have "\<dots> = Inr ?m'"
    by (simp only: none) simp
  finally have "tree_cut ?m' = Inr ?m'" .
  with first d' show ?thesis by blast
qed

lemma demo_groups_cut:
  "tree_cut demo_groups = Inr [(''a>b'', [2, 3]), (''c'', [4])]"
  by (simp add: tree_cut_def demo_groups_def cut_loop_hit hit_def truthy_def dict_del_def)

theorem tree_cut_idempotent_witness:
  "distinct (map fst demo_groups)
   \<and> tree_cut demo_groups = Inr [(''a>b'', [2, 3]), (''c'', [4])]
   \<and> tree_cut [(''a>b'', [2, 3]), (''c'', [4 :: nat])] = Inr [(''a>b'', [2, 3]), (''c'', [4])]"
proof -
  have d: "distinct (map fst demo_groups)"
    by (simp add: demo_groups_def)
  from tree_cut_idempotent [OF d] obtain m' where
    1: "tree_cut demo_groups = Inr m'" and 2: "tree_cut m' = Inr m'"
    by blast
  from 1 have "m' = [(''a>b'', [2, 3]), (''c'', [4])]"
    by (simp add: demo_groups_cut)
  with 1 2 d show ?thesis by simp
qed

lemma kept_retained_walk:
  assumes "sorted_wrt (>) ss"
    and "case lst of None \<Rightarrow> True | Some l \<Rightarrow> list_all (\<lambda>s. s < l) ss"
    and "lst = r \<or> (\<exists>l k. lst = Some l \<and> r = Some k \<and> l \<noteq> [] \<and> prefix l k)"
  shows "kept lst ss = retained_walk r ss"
  using assms
proof (induction ss arbitrary: lst r)
  case Nil
  then show ?case by simp
next
  case (Cons s ss)
  have tail: "sorted_wrt (>) ss" using Cons.prems(1) by simp
  have below: "case Some s of None \<Rightarrow> True | Some l \<Rightarrow> list_all (\<lambda>t. t < l) ss"
    using Cons.prems(1) by (simp add: list_all_iff)
  show ?case
  proof (cases "hit lst s")
    case True
    then obtain l where l: "lst = Some l" and ne: "s \<noteq> []" and pre: "prefix s l"
      by (cases lst) (simp_all add: hit_def truthy_def)
    from Cons.prems(3) l obtain k where k: "r = Some k" and lk: "prefix l k"
      by (elim disjE exE conjE) simp_all
    from pre lk have sk: "prefix s k" by (rule prefix_order.trans)
    with k ne have inv: "Some s = r
        \<or> (\<exists>l' k. Some s = Some l' \<and> r = Some k \<and> l' \<noteq> [] \<and> prefix l' k)"
      by simp
    from sk ne have "k \<noteq> []" by auto
    with sk ne k have "hit r s" by (simp add: hit_def truthy_def)
    moreover have "kept (Some s) ss = retained_walk r ss"
      using tail below inv by (rule Cons.IH)
    ultimately show ?thesis using True by simp
  next
    case False
    have "\<not> hit r s"
    proof
      assume h: "hit r s"
      then obtain k where k: "r = Some k" and ne: "s \<noteq> []" and sk: "prefix s k"
        by (cases r) (simp_all add: hit_def truthy_def)
      from Cons.prems(3) show False
      proof
        assume "lst = r"
        with h False show False by simp
      next
        assume "\<exists>l k. lst = Some l \<and> r = Some k \<and> l \<noteq> [] \<and> prefix l k"
        then obtain l where l: "lst = Some l" and lne: "l \<noteq> []" and lk: "prefix l k"
          using k by (elim exE conjE) simp
        have "s < l" using Cons.prems(2) by (simp add: l)
        from sk lk have "prefix s l \<or> prefix l s"
          by (rule prefix_same_cases)
        then have "prefix s l"
        proof
          assume "prefix s l"
          then show ?thesis .
        next
          assume "prefix l s"
          then have "l \<le> s" by (rule prefix_le)
          with \<open>s < l\<close> show ?thesis by simp
        qed
        then have "hit lst s" using l lne ne by (simp add: hit_def truthy_def)
        with False show False by simp
      qed
    qed
    moreover have "kept (Some s) ss = retained_walk (Some s) ss"
      using tail below by (rule Cons.IH) (rule disjI1, rule refl)
    ultimately show ?thesis using False by simp
  qed
qed

lemma tree_cut_keeps_retained:
  assumes "distinct (map fst m)"
  shows "\<exists>m'. tree_cut m = Inr m'
     \<and> rev (sort (map fst m')) = retained_walk None (rev (sort (map fst m)))"
proof -
  let ?L = "rev (sort (map fst m))"
  let ?P = "\<lambda>s. s \<notin> set (doomed None ?L)"
  let ?m' = "filter (\<lambda>item. ?P (fst item)) m"
  from descending_keys [OF assms] have desc: "sorted_wrt (>) ?L" and dist: "distinct ?L"
    by auto
  have first: "tree_cut m = Inr ?m'" using assms by (rule tree_cut_filter)
  have keys: "map fst ?m' = filter ?P (map fst m)"
    by (simp add: filter_map comp_def)
  have "filter ?P ?L = rev (filter ?P (sort (map fst m)))"
    by (simp only: rev_filter)
  also have "\<dots> = rev (sort (filter ?P (map fst m)))"
    by (simp only: filter_sort)
  finally have "rev (sort (map fst ?m')) = filter ?P ?L"
    by (simp only: keys)
  also have "\<dots> = kept None ?L"
    using dist by (simp add: kept_filter)
  also have "\<dots> = retained_walk None ?L"
    using desc by (rule kept_retained_walk) simp_all
  finally show ?thesis using first by blast
qed

subsection \<open>A list of two rows, end to end\<close>

lemma demo_list_tree:
  "descendants_tree demo_collaborators demo_extractor (Some demo_list)
     = Inr [(''body>ul'', [demo_li1, demo_li2])]"
  by (simp add: descendants_tree_def xpath_anywhere_def docroot_def ancestors_def
        iterdescendants_def frame_of_def demo_list_def demo_li1_def demo_li2_def
        demo_extractor_def ListExtractor_def demo_collaborators_def itersiblings_def node_of_def
        similarity_with_siblings_def mean_def parent_selector_def getparent_def
        selector.simps(2) parent_store_same read_alias_def element_objects_def
        length_itersiblings_preceding preceding_siblings_def str_nat_small digit_char_def)

lemma demo_list_clusters:
  "build_clusters demo_collaborators demo_extractor (Some demo_list)
     = Inr [(0, [demo_li1, demo_li2])]"
  unfolding build_clusters_def demo_list_tree
  by (simp add: tree_cut_def truthy_def demo_collaborators_def)

lemma demo_list_best:
  "choose_best_cluster demo_collaborators [(0, [demo_li1, demo_li2])]
     = Inr [demo_li1, demo_li2]"
  by (simp add: choose_best_cluster_def)

lemma demo_list_links: "cluster_links [demo_li1, demo_li2] = [demo_a1, demo_a2]"
  by (simp add: cluster_links_def linked_descendants_def xpath_below_def iterdescendants_def
        frame_of_def demo_li1_def demo_li2_def demo_a1_def demo_a2_def)

lemma demo_list_paths:
  "tag_path demo_a1 = ''body/ul/li/a'' \<and> tag_path demo_a2 = ''body/ul/li/a''"
  by (simp add: tag_path_def demo_a1_def demo_a2_def demo_li1_def demo_li2_def getparent_def
        node_of_def)

lemma demo_list_extraction:
  "process demo_collaborators demo_extractor demo_list
     = Inr [\<lparr>title = PyStr ''Item1'', href = ''/p/1''\<rparr>,
            \<lparr>title = PyStr ''Item2'', href = ''/p/2''\<rparr>]"
proof -
  have p: "preprocess4list demo_collaborators demo_list = demo_list"
    by (simp add: demo_collaborators_def)
  have b: "best_tag_path demo_extractor [demo_li1, demo_li2] = Inr ''body/ul/li/a''"
    by (simp add: best_tag_path_def demo_list_links demo_list_paths py_max_def np_mean_def)
  have "extract_from_cluster demo_extractor [demo_li1, demo_li2]
     = Inr [\<lparr>title = PyStr ''Item1'', href = ''/p/1''\<rparr>,
            \<lparr>title = PyStr ''Item2'', href = ''/p/2''\<rparr>]"
    by (simp add: extract_from_cluster_def b demo_list_links demo_list_paths truthy_def)
       (simp add: demo_a1_def demo_a2_def node_of_def re_sub_ws_def is_space_def text_node_def)
  then show ?thesis
    by (simp add: process_def p demo_list_clusters demo_list_best)
qed

end
